theory Spec2Isabelle
  imports Complex_Main "HOL-Library.Word" "HOL-Library.Log_Nat"
begin

section \<open>JavaScript strings and the built-ins used by the scraper utilities\<close>

text \<open>
  A JavaScript string is a sequence of UTF-16 code units. All seven currency symbols of
  \<open>parsePrice\<close> are single code units of the Basic Multilingual Plane, so a string is a
  list of 16-bit words. \<open>js\<close> embeds an ASCII literal.
\<close>

type_synonym jschar = "16 word"
type_synonym jsstring = "jschar list"

definition js :: "string \<Rightarrow> jsstring" where
  "js s = map of_char s"

text \<open>
  \<open>String.prototype.trim\<close> removes the code units of the productions WhiteSpace and
  LineTerminator from both ends.
\<close>

definition isWhiteSpace :: "jschar \<Rightarrow> bool" where
  "isWhiteSpace c \<longleftrightarrow>
     c = 0x09 \<or> c = 0x0A \<or> c = 0x0B \<or> c = 0x0C \<or> c = 0x0D \<or> c = 0x20 \<or> c = 0xA0 \<or>
     c = 0x1680 \<or> (0x2000 \<le> c \<and> c \<le> 0x200A) \<or> c = 0x2028 \<or> c = 0x2029 \<or>
     c = 0x202F \<or> c = 0x205F \<or> c = 0x3000 \<or> c = 0xFEFF"

definition trimStart :: "jsstring \<Rightarrow> jsstring" where
  "trimStart s = dropWhile isWhiteSpace s"

definition trim :: "jsstring \<Rightarrow> jsstring" where
  "trim s = rev (dropWhile isWhiteSpace (rev (dropWhile isWhiteSpace s)))"

fun startsWith :: "jsstring \<Rightarrow> jsstring \<Rightarrow> bool" where
  "startsWith s [] = True"
| "startsWith [] (p # ps) = False"
| "startsWith (c # cs) (p # ps) = (c = p \<and> startsWith cs ps)"

text \<open>\<open>indexOf\<close>: position of the first occurrence of a search string, if any.\<close>

fun indexOf :: "jsstring \<Rightarrow> jsstring \<Rightarrow> nat option" where
  "indexOf [] p = (if p = [] then Some 0 else None)"
| "indexOf (c # cs) p =
     (if startsWith (c # cs) p then Some 0 else map_option Suc (indexOf cs p))"

definition includes_str :: "jsstring \<Rightarrow> jsstring \<Rightarrow> bool" where
  "includes_str s p \<longleftrightarrow> indexOf s p \<noteq> None"

text \<open>
  \<open>s.replace(p, r)\<close> with a string pattern replaces the first occurrence only. The
  replacement strings of the source are all empty, so no \<open>$\<close>-pattern is expanded.
\<close>

definition replaceFirst :: "jsstring \<Rightarrow> jsstring \<Rightarrow> jsstring \<Rightarrow> jsstring" where
  "replaceFirst s p r =
     (case indexOf s p of
        None \<Rightarrow> s
      | Some i \<Rightarrow> take i s @ r @ drop (i + length p) s)"

subsection \<open>Character classes of the regular expressions\<close>

definition isDigit :: "jschar \<Rightarrow> bool" where
  "isDigit c \<longleftrightarrow> 0x30 \<le> c \<and> c \<le> 0x39"

definition isUpper :: "jschar \<Rightarrow> bool" where
  "isUpper c \<longleftrightarrow> 0x41 \<le> c \<and> c \<le> 0x5A"

definition isLower :: "jschar \<Rightarrow> bool" where
  "isLower c \<longleftrightarrow> 0x61 \<le> c \<and> c \<le> 0x7A"

text \<open>\<open>\w\<close> without the \<open>u\<close> flag: ASCII letters, digits and the underscore.\<close>

definition isWordChar :: "jschar \<Rightarrow> bool" where
  "isWordChar c \<longleftrightarrow> isDigit c \<or> isUpper c \<or> isLower c \<or> c = 0x5F"

text \<open>
  Case folding as the \<open>i\<close> flag (without \<open>u\<close>) applies it against the pattern's ASCII
  capitals: a code unit of 128 or more never folds to an ASCII one, so only \<open>a\<close>..\<open>z\<close>
  fold to \<open>A\<close>..\<open>Z\<close>. \<open>toUpperCase\<close> is applied by the source to the matched group
  only, which consists of ASCII letters, where it is the same map.
\<close>

definition upperAscii :: "jschar \<Rightarrow> jschar" where
  "upperAscii c = (if isLower c then c - 0x20 else c)"

definition toUpperCase :: "jsstring \<Rightarrow> jsstring" where
  "toUpperCase s = map upperAscii s"

text \<open>\<open>\b\<close>: exactly one of the two neighbouring positions holds a word character.\<close>

definition wordBoundary :: "jschar option \<Rightarrow> jschar option \<Rightarrow> bool" where
  "wordBoundary prev nxt \<longleftrightarrow>
     (case prev of None \<Rightarrow> False | Some c \<Rightarrow> isWordChar c) \<noteq>
     (case nxt of None \<Rightarrow> False | Some c \<Rightarrow> isWordChar c)"

definition headOpt :: "jsstring \<Rightarrow> jschar option" where
  "headOpt s = (case s of [] \<Rightarrow> None | c # _ \<Rightarrow> Some c)"

subsection \<open>Numbers and \<open>parseFloat\<close>\<close>

text \<open>
  A Number is \<open>NaN\<close>, an infinity with its sign, negative zero, or a finite double, which is
  given by its exact rational value (\<open>Finite 0\<close> is positive zero).
\<close>

datatype jsnumber = NaN | Infinity bool | NegZero | Finite rat

definition isNaN :: "jsnumber \<Rightarrow> bool" where
  "isNaN n \<longleftrightarrow> n = NaN"

text \<open>
  The Number value for a mathematical value: the nearest double, ties to the even
  significand. For a magnitude \<open>q = a / b\<close> with \<open>2 ^ e \<le> q < 2 ^ (e + 1)\<close> the doubles
  near \<open>q\<close> are the multiples of \<open>2 ^ t\<close>, where \<open>t = max e (- 1022) - 52\<close> (53 bits of
  significand, subnormal spacing \<open>2 ^ - 1074\<close> below \<open>2 ^ - 1022\<close>); a result of
  \<open>2 ^ 1024\<close> or more is an infinity, and a result of zero keeps the sign. The engine the
  scraper runs on rounds a decimal literal of any length this way.
\<close>

definition pow2 :: "int \<Rightarrow> rat" where
  "pow2 k = (if 0 \<le> k then of_int (2 ^ nat k) else 1 / of_int (2 ^ nat (- k)))"

text \<open>\<open>n / d\<close> for \<open>d > 0\<close>, rounded to the nearest integer, a tie to the even one.\<close>

definition roundDiv :: "int \<Rightarrow> int \<Rightarrow> int" where
  "roundDiv n d =
     (let f = n div d; r = n mod d
      in if 2 * r < d then f else if d < 2 * r then f + 1 else if even f then f else f + 1)"

text \<open>\<open>e\<close> with \<open>2 ^ e \<le> a / b < 2 ^ (e + 1)\<close>, for positive \<open>a\<close> and \<open>b\<close>.\<close>

definition ilog2 :: "int \<Rightarrow> int \<Rightarrow> int" where
  "ilog2 a b =
     (let d = bitlen a - bitlen b
      in if (if 0 \<le> d then b * 2 ^ nat d \<le> a else b \<le> a * 2 ^ nat (- d)) then d else d - 1)"

definition toDouble :: "bool \<Rightarrow> rat \<Rightarrow> jsnumber" where
  "toDouble neg q =
     (if q = 0 then (if neg then NegZero else Finite 0)
      else
        let a = fst (quotient_of q);
            b = snd (quotient_of q);
            t = max (ilog2 a b) (- 1022) - 52;
            m = (if 0 \<le> t then roundDiv a (b * 2 ^ nat t) else roundDiv (a * 2 ^ nat (- t)) b);
            v = of_int m * pow2 t
        in if pow2 1024 \<le> v then Infinity neg
           else if v = 0 then (if neg then NegZero else Finite 0)
           else Finite (if neg then - v else v))"

definition digitVal :: "jschar \<Rightarrow> nat" where
  "digitVal c = unat c - 48"

definition decimalValue :: "jsstring \<Rightarrow> int" where
  "decimalValue ds = foldl (\<lambda>a c. 10 * a + int (digitVal c)) 0 ds"

definition scale10 :: "rat \<Rightarrow> int \<Rightarrow> rat" where
  "scale10 v e = (if 0 \<le> e then v * 10 ^ nat e else v / 10 ^ nat (- e))"

text \<open>ExponentPart, when a complete one follows; otherwise no exponent is read.\<close>

definition exponentPart :: "jsstring \<Rightarrow> int" where
  "exponentPart r =
     (case r of
        [] \<Rightarrow> 0
      | e # r' \<Rightarrow>
          if e = 0x65 \<or> e = 0x45 then
            (case r' of
               [] \<Rightarrow> 0
             | c # t \<Rightarrow>
                 if c = 0x2B then
                   (if takeWhile isDigit t = [] then 0 else decimalValue (takeWhile isDigit t))
                 else if c = 0x2D then
                   (if takeWhile isDigit t = [] then 0 else - decimalValue (takeWhile isDigit t))
                 else
                   (if takeWhile isDigit r' = [] then 0 else decimalValue (takeWhile isDigit r')))
          else 0)"

text \<open>
  The longest prefix that is a StrUnsignedDecimalLiteral other than \<open>Infinity\<close>:
  digits with an optional fraction, or a dot followed by digits, then an optional exponent.
  The result is the literal's exact mathematical value, not yet rounded.
\<close>

definition unsignedLiteral :: "jsstring \<Rightarrow> rat option" where
  "unsignedLiteral s =
     (let ip = takeWhile isDigit s;
          r1 = dropWhile isDigit s;
          hasDot = (headOpt r1 = Some 0x2E);
          fp = (if hasDot then takeWhile isDigit (tl r1) else []);
          r2 = (if hasDot then dropWhile isDigit (tl r1) else r1)
      in if ip = [] \<and> fp = [] then None
         else Some (scale10 (of_int (decimalValue ip) + of_int (decimalValue fp) / 10 ^ length fp)
                      (exponentPart r2)))"

definition signedLiteral :: "bool \<Rightarrow> jsstring \<Rightarrow> jsnumber" where
  "signedLiteral neg u =
     (if startsWith u (js ''Infinity'') then Infinity neg
      else case unsignedLiteral u of
             None \<Rightarrow> NaN
           | Some v \<Rightarrow> toDouble neg v)"

definition parseFloat :: "jsstring \<Rightarrow> jsnumber" where
  "parseFloat s =
     (case trimStart s of
        [] \<Rightarrow> NaN
      | c # t \<Rightarrow>
          if c = 0x2D then signedLiteral True t
          else if c = 0x2B then signedLiteral False t
          else signedLiteral False (c # t))"

section \<open>Price normalisation: \<open>parsePrice\<close>\<close>

text \<open>
  Every failure of the source is \<open>throw new Error(message)\<close>. The errors are kept apart
  by constructor; \<open>message\<close> below gives the text each one carries. \<open>EngineError\<close> is
  an error thrown by the rendering engine, and \<open>ScrapeFailed\<close> is the error \<open>scrape\<close>
  rethrows, built from the URL and the message of the error it caught.
\<close>

datatype error =
    PriceTextEmpty
  | CouldNotParse jsstring
  | ElementNotFound jsstring
  | EmptyContent
  | PageNotInitialized
  | EngineError jsstring
  | ScrapeFailed jsstring jsstring

record parsedPrice =
  price :: jsnumber
  currency :: jsstring

definition currencyPatterns :: "(jsstring \<times> jsstring) list" where
  "currencyPatterns =
     [([0x24], js ''USD''), ([0x20AC], js ''EUR''), ([0xA3], js ''GBP''), ([0xA5], js ''JPY''),
      ([0x20B9], js ''INR''), ([0x20BD], js ''RUB''), ([0x20A9], js ''KRW'')]"

text \<open>
  The loop over \<open>currencyPatterns\<close>: the first table entry whose symbol occurs in the
  trimmed text sets the currency and removes the first occurrence of that symbol; the
  loop then breaks. The result is the pair \<open>(currency, priceString)\<close>.
\<close>

fun symbolLoop :: "(jsstring \<times> jsstring) list \<Rightarrow> jsstring \<Rightarrow> jsstring \<times> jsstring" where
  "symbolLoop [] cleaned = (js ''USD'', cleaned)"
| "symbolLoop ((symbol, code) # rest) cleaned =
     (if includes_str cleaned symbol then (code, trim (replaceFirst cleaned symbol []))
      else symbolLoop rest cleaned)"

definition currencyCodes :: "jsstring list" where
  "currencyCodes =
     [js ''USD'', js ''EUR'', js ''GBP'', js ''JPY'', js ''INR'',
      js ''RUB'', js ''KRW'', js ''CAD'', js ''AUD'', js ''CHF'']"

text \<open>
  \<open>/\b(USD|EUR|GBP|JPY|INR|RUB|KRW|CAD|AUD|CHF)\b/i\<close> tried at the head of \<open>s\<close>, the code
  unit in front of it being \<open>prev\<close>: the captured group, if the pattern matches here.
\<close>

definition codeAt :: "jschar option \<Rightarrow> jsstring \<Rightarrow> jsstring option" where
  "codeAt prev s =
     (if length s \<ge> 3 \<and> toUpperCase (take 3 s) \<in> set currencyCodes
         \<and> wordBoundary prev (headOpt s)
         \<and> wordBoundary (Some (s ! 2)) (headOpt (drop 3 s))
      then Some (take 3 s) else None)"

text \<open>The leftmost match: its index and its captured group.\<close>

fun codeSearch :: "jschar option \<Rightarrow> jsstring \<Rightarrow> nat \<Rightarrow> (nat \<times> jsstring) option" where
  "codeSearch prev [] i = None"
| "codeSearch prev (c # cs) i =
     (case codeAt prev (c # cs) of
        Some g \<Rightarrow> Some (i, g)
      | None \<Rightarrow> codeSearch (Some c) cs (Suc i))"

definition codeMatch :: "jsstring \<Rightarrow> (nat \<times> jsstring) option" where
  "codeMatch cleaned = codeSearch None cleaned 0"

text \<open>\<open>cleaned.replace(codePattern, '')\<close>: the pattern is not global, so only the leftmost match goes.\<close>

definition removeCode :: "jsstring \<Rightarrow> jsstring" where
  "removeCode s =
     (case codeMatch s of
        None \<Rightarrow> s
      | Some (i, g) \<Rightarrow> take i s @ drop (i + length g) s)"

text \<open>\<open>.replace(/,/g, '').replace(/[^\d.-]/g, '')\<close>\<close>

definition keepChar :: "jschar \<Rightarrow> bool" where
  "keepChar c \<longleftrightarrow> isDigit c \<or> c = 0x2E \<or> c = 0x2D"

definition stripFormatting :: "jsstring \<Rightarrow> jsstring" where
  "stripFormatting s = filter keepChar (filter (\<lambda>c. c \<noteq> 0x2C) s)"

definition parsePrice :: "jsstring \<Rightarrow> error + parsedPrice" where
  "parsePrice priceText =
     (if priceText = [] then Inl PriceTextEmpty
      else
        let cleaned = trim priceText;
            bySymbol = symbolLoop currencyPatterns cleaned;
            byCode = (case codeMatch cleaned of
                        None \<Rightarrow> bySymbol
                      | Some (i, g) \<Rightarrow> (toUpperCase g, trim (removeCode cleaned)));
            n = parseFloat (stripFormatting (snd byCode))
        in if isNaN n then Inl (CouldNotParse priceText)
           else Inr \<lparr>price = n, currency = fst byCode\<rparr>)"

text \<open>
  The currency \<open>parsePrice\<close> settles on, as a function of the trimmed text: the code token
  if the pattern matches, else the symbol loop's choice.
\<close>

definition detectCurrency :: "jsstring \<Rightarrow> jsstring" where
  "detectCurrency cleaned =
     (case codeMatch cleaned of
        None \<Rightarrow> fst (symbolLoop currencyPatterns cleaned)
      | Some (i, g) \<Rightarrow> toUpperCase g)"

definition amount :: "error + parsedPrice \<Rightarrow> jsnumber option" where
  "amount r = (case r of Inl _ \<Rightarrow> None | Inr p \<Rightarrow> Some (price p))"

fun message :: "error \<Rightarrow> jsstring" where
  "message PriceTextEmpty = js ''Price text is empty''"
| "message (CouldNotParse priceText) = js ''Could not parse price from: '' @ priceText"
| "message (ElementNotFound selector) = js ''Price element not found with selector: '' @ selector"
| "message EmptyContent = js ''Price element has no text content''"
| "message PageNotInitialized = js ''Page not initialized''"
| "message (EngineError m) = m"
| "message (ScrapeFailed url m) = js ''Failed to scrape '' @ url @ js '': '' @ m"

section \<open>DOM helpers of the utilities\<close>

text \<open>
  An element as the helpers and the scraper read it: its text content and its attributes.
  \<open>null\<close> and \<open>undefined\<close> are both \<open>None\<close>.
\<close>

record element =
  textContent :: "jsstring option"
  attributes :: "(jsstring \<times> jsstring) list"

definition getAttribute :: "element \<Rightarrow> jsstring \<Rightarrow> jsstring option" where
  "getAttribute el name = map_of (attributes el) name"

text \<open>Truthiness of a value that is a string, \<open>null\<close> or \<open>undefined\<close>.\<close>

definition truthy :: "jsstring option \<Rightarrow> bool" where
  "truthy v \<longleftrightarrow> (case v of None \<Rightarrow> False | Some s \<Rightarrow> s \<noteq> [])"

definition extractText :: "element option \<Rightarrow> jsstring" where
  "extractText el =
     (case el of
        None \<Rightarrow> []
      | Some e \<Rightarrow> (case textContent e of None \<Rightarrow> [] | Some t \<Rightarrow> trim t))"

definition extractAttribute :: "element option \<Rightarrow> jsstring \<Rightarrow> jsstring option" where
  "extractAttribute el attribute =
     (case el of None \<Rightarrow> None | Some e \<Rightarrow> getAttribute e attribute)"

text \<open>\<open>s.split(sep)\<close> for a separator of one code unit.\<close>

fun split :: "jschar \<Rightarrow> jsstring \<Rightarrow> jsstring list" where
  "split sep [] = [[]]"
| "split sep (c # cs) =
     (if c = sep then [] # split sep cs
      else (case split sep cs of [] \<Rightarrow> [[c]] | h # t \<Rightarrow> (c # h) # t))"

definition extractImageUrl :: "element option \<Rightarrow> jsstring option" where
  "extractImageUrl el =
     (case el of
        None \<Rightarrow> None
      | Some e \<Rightarrow>
          if truthy (extractAttribute (Some e) (js ''src'')) then extractAttribute (Some e) (js ''src'')
          else if truthy (extractAttribute (Some e) (js ''data-src''))
            then extractAttribute (Some e) (js ''data-src'')
          else (case extractAttribute (Some e) (js ''srcset'') of
                  None \<Rightarrow> None
                | Some srcset \<Rightarrow>
                    if srcset = [] then None
                    else (let urls = map (\<lambda>s. hd (split 0x20 (trim s))) (split 0x2C srcset)
                          in if hd urls = [] then None else Some (hd urls))))"

definition getUserAgent :: jsstring where
  "getUserAgent = js ''Mozilla/5.0 (Windows NT 10.0; Win64; x64) AppleWebKit/537.36 (KHTML, like Gecko) Chrome/120.0.0.0 Safari/537.36 CompetitorTracker/1.0''"

section \<open>Retry with exponential backoff\<close>

text \<open>
  The operation \<open>fn\<close> and \<open>sleep\<close> act on a state \<open>'s\<close>; a rejected promise is \<open>Inl\<close>.
  \<open>lastError\<close> is \<open>None\<close> while unassigned, so \<open>Inl None\<close> is \<open>throw undefined\<close>.
  \<open>maxRetries\<close> and \<open>baseDelay\<close> are integers.
\<close>

function retryLoop ::
  "(int \<Rightarrow> 's \<Rightarrow> 's) \<Rightarrow> ('s \<Rightarrow> ('e + 'a) \<times> 's) \<Rightarrow> int \<Rightarrow> int \<Rightarrow> nat \<Rightarrow> 'e option \<Rightarrow> 's
     \<Rightarrow> ('e option + 'a) \<times> 's" where
  "retryLoop slp fn maxRetries baseDelay attempt lastError s =
     (if int attempt < maxRetries then
        (case fn s of
           (Inr v, s1) \<Rightarrow> (Inr v, s1)
         | (Inl e, s1) \<Rightarrow>
             retryLoop slp fn maxRetries baseDelay (Suc attempt) (Some e)
               (if int attempt < maxRetries - 1 then slp (baseDelay * 2 ^ attempt) s1 else s1))
      else (Inl lastError, s))"
  by pat_completeness auto
termination
  by (relation "measure (\<lambda>(slp, fn, maxRetries, baseDelay, attempt, lastError, s). nat (maxRetries - int attempt))")
     auto

declare retryLoop.simps [simp del]

definition retry ::
  "(int \<Rightarrow> 's \<Rightarrow> 's) \<Rightarrow> ('s \<Rightarrow> ('e + 'a) \<times> 's) \<Rightarrow> int \<Rightarrow> int \<Rightarrow> 's \<Rightarrow> ('e option + 'a) \<times> 's" where
  "retry slp fn maxRetries baseDelay s = retryLoop slp fn maxRetries baseDelay 0 None s"

section \<open>The scraper\<close>

text \<open>
  The rendering engine is outside the repository. It is a parameter: a record of the calls
  the scraper makes, each acting on a world \<open>'w\<close> and either returning or throwing an
  error. Browser, context and page are handles; \<open>page.$\<close> yields the element a selector
  finds first, or \<open>None\<close>. An element handle is modelled by the element it denotes, so
  reading its text content or an attribute is a plain lookup.
\<close>

type_synonym handle = nat

type_synonym ('w, 'a) call = "'w \<Rightarrow> (error + 'a) \<times> 'w"

record 'w engine =
  chromium_launch :: "bool \<Rightarrow> jsstring list \<Rightarrow> ('w, handle) call"
  browser_newContext :: "handle \<Rightarrow> jsstring \<Rightarrow> nat \<times> nat \<Rightarrow> ('w, handle) call"
  context_newPage :: "handle \<Rightarrow> ('w, handle) call"
  page_close :: "handle \<Rightarrow> ('w, unit) call"
  context_close :: "handle \<Rightarrow> ('w, unit) call"
  browser_close :: "handle \<Rightarrow> ('w, unit) call"
  page_goto :: "handle \<Rightarrow> jsstring \<Rightarrow> int \<Rightarrow> ('w, unit) call"
  page_waitForSelector :: "handle \<Rightarrow> jsstring \<Rightarrow> int \<Rightarrow> ('w, unit) call"
  page_query :: "handle \<Rightarrow> jsstring \<Rightarrow> ('w, element option) call"
  sleep :: "int \<Rightarrow> 'w \<Rightarrow> 'w"

record scraperOptions =
  timeout :: "int option"
  waitForSelector :: "jsstring option"
  headless :: "bool option"
  userAgent :: "jsstring option"

record scrapedData = parsedPrice +
  productName :: "jsstring option"
  imageUrl :: "jsstring option"
  rawPrice :: jsstring

text \<open>The fields of a \<open>Scraper\<close> object.\<close>

record scraper =
  browser :: "handle option"
  context_ref :: "handle option"
  page :: "handle option"

definition newScraper :: scraper where
  "newScraper = \<lparr>browser = None, context_ref = None, page = None\<rparr>"

definition launchArgs :: "jsstring list" where
  "launchArgs =
     [js ''--no-sandbox'', js ''--disable-setuid-sandbox'', js ''--disable-dev-shm-usage'',
      js ''--disable-accelerated-2d-canvas'', js ''--no-first-run'', js ''--no-zygote'',
      js ''--disable-gpu'']"

definition initialize ::
  "'w engine \<Rightarrow> scraperOptions \<Rightarrow> scraper \<times> 'w \<Rightarrow> (error + unit) \<times> (scraper \<times> 'w)" where
  "initialize E options st =
     (case st of (this, w) \<Rightarrow>
        if browser this \<noteq> None then (Inr (), (this, w))
        else
          (case chromium_launch E (headless options \<noteq> Some False) launchArgs w of
             (Inl e, w1) \<Rightarrow> (Inl e, (this, w1))
           | (Inr b, w1) \<Rightarrow>
               (case browser_newContext E b
                       (if truthy (userAgent options) then the (userAgent options) else getUserAgent)
                       (1920, 1080) w1 of
                  (Inl e, w2) \<Rightarrow> (Inl e, (this\<lparr>browser := Some b\<rparr>, w2))
                | (Inr c, w2) \<Rightarrow>
                    (case context_newPage E c w2 of
                       (Inl e, w3) \<Rightarrow> (Inl e, (this\<lparr>browser := Some b, context_ref := Some c\<rparr>, w3))
                     | (Inr p, w3) \<Rightarrow>
                         (Inr (), (this\<lparr>browser := Some b, context_ref := Some c, page := Some p\<rparr>, w3))))))"

text \<open>
  \<open>close\<close>: three \<open>if\<close> statements in sequence; an \<open>await\<close> that throws leaves the
  method at once, before the assignment of \<open>null\<close> that follows it.
\<close>

definition closeBrowserLevel ::
  "'w engine \<Rightarrow> scraper \<times> 'w \<Rightarrow> (error + unit) \<times> (scraper \<times> 'w)" where
  "closeBrowserLevel E st =
     (case st of (this, w) \<Rightarrow>
        (case browser this of
           None \<Rightarrow> (Inr (), (this, w))
         | Some b \<Rightarrow>
             (case browser_close E b w of
                (Inl e, w1) \<Rightarrow> (Inl e, (this, w1))
              | (Inr _, w1) \<Rightarrow> (Inr (), (this\<lparr>browser := None\<rparr>, w1)))))"

definition closeContextLevel ::
  "'w engine \<Rightarrow> scraper \<times> 'w \<Rightarrow> (error + unit) \<times> (scraper \<times> 'w)" where
  "closeContextLevel E st =
     (case st of (this, w) \<Rightarrow>
        (case context_ref this of
           None \<Rightarrow> closeBrowserLevel E (this, w)
         | Some c \<Rightarrow>
             (case context_close E c w of
                (Inl e, w1) \<Rightarrow> (Inl e, (this, w1))
              | (Inr _, w1) \<Rightarrow> closeBrowserLevel E (this\<lparr>context_ref := None\<rparr>, w1))))"

definition close :: "'w engine \<Rightarrow> scraper \<times> 'w \<Rightarrow> (error + unit) \<times> (scraper \<times> 'w)" where
  "close E st =
     (case st of (this, w) \<Rightarrow>
        (case page this of
           None \<Rightarrow> closeContextLevel E (this, w)
         | Some p \<Rightarrow>
             (case page_close E p w of
                (Inl e, w1) \<Rightarrow> (Inl e, (this, w1))
              | (Inr _, w1) \<Rightarrow> closeContextLevel E (this\<lparr>page := None\<rparr>, w1))))"

subsection \<open>One scrape\<close>

record request =
  url :: jsstring
  priceSelector :: jsstring
  nameSelector :: "jsstring option"
  imageSelector :: "jsstring option"

text \<open>Sequencing of calls that may throw.\<close>

definition andThen :: "('w, 'a) call \<Rightarrow> ('a \<Rightarrow> ('w, 'b) call) \<Rightarrow> ('w, 'b) call" where
  "andThen m f w = (case m w of (Inl e, w1) \<Rightarrow> (Inl e, w1) | (Inr a, w1) \<Rightarrow> f a w1)"

definition throw :: "error \<Rightarrow> ('w, 'a) call" where
  "throw e w = (Inl e, w)"

definition return :: "'a \<Rightarrow> ('w, 'a) call" where
  "return a w = (Inr a, w)"

text \<open>Navigation, the optional wait for a selector, and the settle delay.\<close>

definition loadPage :: "'w engine \<Rightarrow> handle \<Rightarrow> jsstring \<Rightarrow> scraperOptions \<Rightarrow> ('w, unit) call" where
  "loadPage E p u options =
     andThen (page_goto E p u
                (case timeout options of None \<Rightarrow> 30000 | Some t \<Rightarrow> if t = 0 then 30000 else t))
       (\<lambda>_. andThen (if truthy (waitForSelector options)
                      then page_waitForSelector E p (the (waitForSelector options)) 5000
                      else return ())
          (\<lambda>_ w. (Inr (), sleep E 1000 w)))"

text \<open>The price step: the element, its text, and \<open>parsePrice\<close> on the text as read.\<close>

definition extractPrice ::
  "'w engine \<Rightarrow> handle \<Rightarrow> jsstring \<Rightarrow> ('w, jsstring \<times> parsedPrice) call" where
  "extractPrice E p selector =
     andThen (page_query E p selector)
       (\<lambda>priceElement.
          case priceElement of
            None \<Rightarrow> throw (ElementNotFound selector)
          | Some el \<Rightarrow>
              if \<not> truthy (textContent el) then throw EmptyContent
              else (case parsePrice (the (textContent el)) of
                      Inl e \<Rightarrow> throw e
                    | Inr r \<Rightarrow> return (the (textContent el), r)))"

definition extractName :: "'w engine \<Rightarrow> handle \<Rightarrow> jsstring option \<Rightarrow> ('w, jsstring option) call" where
  "extractName E p selector =
     (if truthy selector then
        andThen (page_query E p (the selector))
          (\<lambda>nameElement.
             case nameElement of
               None \<Rightarrow> return None
             | Some el \<Rightarrow> return (map_option trim (textContent el)))
      else return None)"

text \<open>The image step of \<open>scrape\<close>: \<open>src\<close>, and \<open>data-src\<close> when \<open>src\<close> is falsy.\<close>

definition extractImage :: "'w engine \<Rightarrow> handle \<Rightarrow> jsstring option \<Rightarrow> ('w, jsstring option) call" where
  "extractImage E p selector =
     (if truthy selector then
        andThen (page_query E p (the selector))
          (\<lambda>imageElement.
             case imageElement of
               None \<Rightarrow> return None
             | Some el \<Rightarrow>
                 if truthy (getAttribute el (js ''src'')) then return (getAttribute el (js ''src''))
                 else return (getAttribute el (js ''data-src'')))
      else return None)"

text \<open>The body of the \<open>try\<close> block.\<close>

definition scrapeBody ::
  "'w engine \<Rightarrow> handle \<Rightarrow> request \<Rightarrow> scraperOptions \<Rightarrow> ('w, scrapedData) call" where
  "scrapeBody E p r options =
     andThen (loadPage E p (url r) options)
       (\<lambda>_. andThen (extractPrice E p (priceSelector r))
          (\<lambda>(priceText, parsed). andThen (extractName E p (nameSelector r))
             (\<lambda>name. andThen (extractImage E p (imageSelector r))
                (\<lambda>image. return
                   \<lparr>price = price parsed, currency = currency parsed, productName = name,
                    imageUrl = image, rawPrice = trim priceText\<rparr>))))"

definition scrape ::
  "'w engine \<Rightarrow> request \<Rightarrow> scraperOptions \<Rightarrow> scraper \<times> 'w \<Rightarrow> (error + scrapedData) \<times> (scraper \<times> 'w)" where
  "scrape E r options st =
     (case initialize E options st of
        (Inl e, st1) \<Rightarrow> (Inl e, st1)
      | (Inr _, (this, w)) \<Rightarrow>
          (case page this of
             None \<Rightarrow> (Inl PageNotInitialized, (this, w))
           | Some p \<Rightarrow>
               (case scrapeBody E p r options w of
                  (Inl e, w1) \<Rightarrow> (Inl (ScrapeFailed (url r) (message e)), (this, w1))
                | (Inr d, w1) \<Rightarrow> (Inr d, (this, w1)))))"

definition scrapeWithRetry ::
  "'w engine \<Rightarrow> request \<Rightarrow> scraperOptions \<Rightarrow> int \<Rightarrow> scraper \<times> 'w
     \<Rightarrow> (error option + scrapedData) \<times> (scraper \<times> 'w)" where
  "scrapeWithRetry E r options maxRetries =
     retry (\<lambda>ms (this, w). (this, sleep E ms w)) (scrape E r options) maxRetries 1000"

subsection \<open>A batch of scrapes\<close>

record batchItem =
  success :: bool
  data :: "scrapedData option"
  error :: "jsstring option"
  itemUrl :: jsstring

text \<open>\<open>error instanceof Error ? error.message : String(error)\<close>\<close>

definition errorText :: "error option \<Rightarrow> jsstring" where
  "errorText e = (case e of None \<Rightarrow> js ''undefined'' | Some err \<Rightarrow> message err)"

definition outcome :: "request \<Rightarrow> error option + scrapedData \<Rightarrow> batchItem" where
  "outcome r res =
     (case res of
        Inr d \<Rightarrow> \<lparr>success = True, data = Some d, error = None, itemUrl = url r\<rparr>
      | Inl e \<Rightarrow> \<lparr>success = False, data = None, error = Some (errorText e), itemUrl = url r\<rparr>)"

fun batchLoop ::
  "'w engine \<Rightarrow> scraperOptions \<Rightarrow> int \<Rightarrow> request list \<Rightarrow> batchItem list \<Rightarrow> scraper \<times> 'w
     \<Rightarrow> batchItem list \<times> (scraper \<times> 'w)" where
  "batchLoop E options maxRetries [] results st = (results, st)"
| "batchLoop E options maxRetries (r # rs) results st =
     (case scrapeWithRetry E r options maxRetries st of
        (res, st1) \<Rightarrow> batchLoop E options maxRetries rs (results @ [outcome r res]) st1)"

definition scrapeBatch ::
  "'w engine \<Rightarrow> request list \<Rightarrow> scraperOptions \<Rightarrow> int \<Rightarrow> scraper \<times> 'w
     \<Rightarrow> batchItem list \<times> (scraper \<times> 'w)" where
  "scrapeBatch E requests options maxRetries st = batchLoop E options maxRetries requests [] st"

section \<open>Observing runs\<close>

subsection \<open>Decimal literals in a filtered text\<close>

text \<open>
  The decimal literals that can stand in a filtered text, which holds digits, dots and
  minus signs only: an optional minus sign, integer digits \<open>ip\<close> and an optional fraction
  \<open>fr\<close> (a dot and digits), with a digit on one side of the dot at least.
\<close>

definition literalText :: "bool \<Rightarrow> jsstring \<Rightarrow> jsstring option \<Rightarrow> jsstring" where
  "literalText neg ip fr =
     (if neg then [0x2D] else []) @ ip @ (case fr of None \<Rightarrow> [] | Some fp \<Rightarrow> 0x2E # fp)"

definition literalValue :: "jsstring \<Rightarrow> jsstring option \<Rightarrow> rat" where
  "literalValue ip fr =
     of_int (decimalValue ip) +
     (case fr of None \<Rightarrow> 0 | Some fp \<Rightarrow> of_int (decimalValue fp) / 10 ^ length fp)"

definition isLiteral :: "jsstring \<Rightarrow> jsstring option \<Rightarrow> bool" where
  "isLiteral ip fr \<longleftrightarrow>
     list_all isDigit ip \<and>
     (case fr of None \<Rightarrow> ip \<noteq> [] | Some fp \<Rightarrow> list_all isDigit fp \<and> (ip \<noteq> [] \<or> fp \<noteq> []))"

text \<open>The literal cannot be made longer by what follows it.\<close>

definition endsLiteral :: "jsstring option \<Rightarrow> jsstring \<Rightarrow> bool" where
  "endsLiteral fr rest \<longleftrightarrow>
     (case rest of
        [] \<Rightarrow> True
      | c # _ \<Rightarrow> (case fr of None \<Rightarrow> c = 0x2D | Some fp \<Rightarrow> c = 0x2D \<or> c = 0x2E))"

subsection \<open>Calls and sleeps of a retry\<close>

text \<open>
  To count invocations and sleeps, the operation and \<open>sleep\<close> are wrapped so that each
  appends an event to a log carried beside the state.
\<close>

datatype event = Invoked | Slept int

definition logFn :: "('s \<Rightarrow> ('e + 'a) \<times> 's) \<Rightarrow> 's \<times> event list \<Rightarrow> ('e + 'a) \<times> ('s \<times> event list)" where
  "logFn fn st = (case st of (s, evs) \<Rightarrow> (case fn s of (r, s1) \<Rightarrow> (r, (s1, evs @ [Invoked]))))"

definition logSleep :: "(int \<Rightarrow> 's \<Rightarrow> 's) \<Rightarrow> int \<Rightarrow> 's \<times> event list \<Rightarrow> 's \<times> event list" where
  "logSleep slp ms st = (case st of (s, evs) \<Rightarrow> (slp ms s, evs @ [Slept ms]))"

text \<open>
  The state in which invocation \<open>k\<close> (zero-based) starts when every earlier invocation
  failed: invocation \<open>i\<close> was followed by a sleep of \<open>baseDelay * 2 ^ i\<close>.
\<close>

fun stateBefore :: "(int \<Rightarrow> 's \<Rightarrow> 's) \<Rightarrow> ('s \<Rightarrow> ('e + 'a) \<times> 's) \<Rightarrow> int \<Rightarrow> nat \<Rightarrow> 's \<Rightarrow> 's" where
  "stateBefore slp fn baseDelay 0 s = s"
| "stateBefore slp fn baseDelay (Suc k) s =
     slp (baseDelay * 2 ^ k) (snd (fn (stateBefore slp fn baseDelay k s)))"

definition errorOf :: "'e + 'a \<Rightarrow> 'e option" where
  "errorOf r = (case r of Inl e \<Rightarrow> Some e | Inr _ \<Rightarrow> None)"

text \<open>The events of \<open>n\<close> failed attempts: a sleep after each attempt but the last.\<close>

definition backoffEvents :: "nat \<Rightarrow> int \<Rightarrow> event list" where
  "backoffEvents n baseDelay =
     concat (map (\<lambda>i. if Suc i < n then [Invoked, Slept (baseDelay * 2 ^ i)] else [Invoked]) [0..<n])"

subsection \<open>The state a batch has reached\<close>

fun batchState ::
  "'w engine \<Rightarrow> scraperOptions \<Rightarrow> int \<Rightarrow> request list \<Rightarrow> scraper \<times> 'w \<Rightarrow> scraper \<times> 'w" where
  "batchState E options maxRetries [] st = st"
| "batchState E options maxRetries (r # rs) st =
     batchState E options maxRetries rs (snd (scrapeWithRetry E r options maxRetries st))"

subsection \<open>Closing a level that is present\<close>

definition closeIfPresent :: "(handle \<Rightarrow> ('w, unit) call) \<Rightarrow> handle option \<Rightarrow> 'w \<Rightarrow> 'w" where
  "closeIfPresent cl ref w = (case ref of None \<Rightarrow> w | Some h \<Rightarrow> snd (cl h w))"

definition closes :: "(handle \<Rightarrow> ('w, unit) call) \<Rightarrow> handle option \<Rightarrow> 'w \<Rightarrow> bool" where
  "closes cl ref w = (case ref of None \<Rightarrow> True | Some h \<Rightarrow> \<not> isl (fst (cl h w)))"

subsection \<open>A scripted engine\<close>

text \<open>
  An engine for concrete runs: a site maps a URL to the elements its selectors find, a URL
  outside the site fails to load, and the world records the loaded URL, the time slept,
  the launches and the close calls that completed.
\<close>

record fakeWorld =
  current :: jsstring
  clock :: int
  launches :: nat
  closed :: "jsstring list"

type_synonym site = "(jsstring \<times> (jsstring \<times> element) list) list"

definition fakeEngine :: "site \<Rightarrow> bool \<Rightarrow> fakeWorld engine" where
  "fakeEngine pages pageCloseFails =
     \<lparr>chromium_launch = (\<lambda>h args w. (Inr 1, w\<lparr>launches := Suc (launches w)\<rparr>)),
      browser_newContext = (\<lambda>b ua vp w. (Inr 2, w)),
      context_newPage = (\<lambda>c w. (Inr 3, w)),
      page_close = (\<lambda>p w. if pageCloseFails then (Inl (EngineError (js ''Target crashed'')), w)
                            else (Inr (), w\<lparr>closed := closed w @ [js ''page'']\<rparr>)),
      context_close = (\<lambda>c w. (Inr (), w\<lparr>closed := closed w @ [js ''context'']\<rparr>)),
      browser_close = (\<lambda>b w. (Inr (), w\<lparr>closed := closed w @ [js ''browser'']\<rparr>)),
      page_goto = (\<lambda>p u t w. case map_of pages u of
                                 None \<Rightarrow> (Inl (EngineError (js ''net::ERR_NAME_NOT_RESOLVED'')), w)
                               | Some els \<Rightarrow> (Inr (), w\<lparr>current := u\<rparr>)),
      page_waitForSelector = (\<lambda>p sel t w. case map_of pages (current w) of
                                 None \<Rightarrow> (Inl (EngineError (js ''Timeout 5000ms exceeded'')), w)
                               | Some els \<Rightarrow>
                                   if map_of els sel = None
                                   then (Inl (EngineError (js ''Timeout 5000ms exceeded'')), w)
                                   else (Inr (), w)),
      page_query = (\<lambda>p sel w. (Inr (case map_of pages (current w) of
                                       None \<Rightarrow> None
                                     | Some els \<Rightarrow> map_of els sel), w)),
      sleep = (\<lambda>ms w. w\<lparr>clock := clock w + ms\<rparr>)\<rparr>"

definition world0 :: fakeWorld where
  "world0 = \<lparr>current = [], clock = 0, launches = 0, closed = []\<rparr>"

definition noOptions :: scraperOptions where
  "noOptions = \<lparr>timeout = None, waitForSelector = None, headless = None, userAgent = None\<rparr>"

definition liveScraper :: scraper where
  "liveScraper = \<lparr>browser = Some 1, context_ref = Some 2, page = Some 3\<rparr>"

definition textElement :: "jsstring \<Rightarrow> element" where
  "textElement t = \<lparr>textContent = Some t, attributes = []\<rparr>"

definition imageElement :: "(jsstring \<times> jsstring) list \<Rightarrow> element" where
  "imageElement attrs = \<lparr>textContent = Some [], attributes = attrs\<rparr>"

definition priceRequest :: "jsstring \<Rightarrow> request" where
  "priceRequest u =
     \<lparr>url = u, priceSelector = js ''.price'', nameSelector = None, imageSelector = Some (js ''img'')\<rparr>"

text \<open>
  Three pages: \<open>b.example\<close> shows a price and an image that carries only \<open>srcset\<close>,
  \<open>c.example\<close> has no price element, \<open>d.example\<close> has a blank price element;
  \<open>a.example\<close> does not load.
\<close>

definition shop :: site where
  "shop =
     [(js ''http://b.example'',
         [(js ''.price'', textElement (js ''$19.99'')),
          (js ''img'', imageElement [(js ''srcset'', js ''a.jpg 1x, b.jpg 2x'')])]),
      (js ''http://c.example'', []),
      (js ''http://d.example'', [(js ''.price'', textElement (js ''   ''))])]"

section \<open>Properties\<close>

subsection \<open>The amount depends on the filtered text only\<close>

lemma keepChar_not_comma: "keepChar c \<Longrightarrow> c \<noteq> 0x2C"
  by (auto simp: keepChar_def isDigit_def)

lemma stripFormatting_filter: "stripFormatting s = filter keepChar s"
  unfolding stripFormatting_def by (induction s) (auto dest: keepChar_not_comma)

lemma whitespace_not_kept: "isWhiteSpace c \<Longrightarrow> \<not> keepChar c"
  unfolding isWhiteSpace_def keepChar_def isDigit_def
  by (auto simp: word_le_nat_alt)

lemma filter_dropWhile_disjoint:
  "(\<And>c. P c \<Longrightarrow> \<not> Q c) \<Longrightarrow> filter Q (dropWhile P s) = filter Q s"
  by (induction s) auto

lemma filter_trim: "filter keepChar (trim s) = filter keepChar s"
proof -
  have "filter keepChar (trim s) = rev (filter keepChar (dropWhile isWhiteSpace (rev (dropWhile isWhiteSpace s))))"
    by (simp add: trim_def rev_filter)
  also have "\<dots> = rev (filter keepChar (rev (dropWhile isWhiteSpace s)))"
    by (simp add: filter_dropWhile_disjoint whitespace_not_kept)
  also have "\<dots> = filter keepChar (dropWhile isWhiteSpace s)"
    by (simp add: rev_filter)
  also have "\<dots> = filter keepChar s"
    by (simp add: filter_dropWhile_disjoint whitespace_not_kept)
  finally show ?thesis .
qed

lemma startsWith_append: "startsWith s p \<Longrightarrow> s = p @ drop (length p) s"
  by (induction s p rule: startsWith.induct) auto

lemma indexOf_split:
  "indexOf s p = Some i \<Longrightarrow> s = take i s @ p @ drop (i + length p) s"
proof (induction s arbitrary: i)
  case Nil
  then show ?case by (auto split: if_splits)
next
  case (Cons c cs)
  show ?case
  proof (cases "startsWith (c # cs) p")
    case True
    with Cons.prems have "i = 0" by simp
    with True show ?thesis using startsWith_append[of "c # cs" p] by simp
  next
    case False
    with Cons.prems obtain j where j: "indexOf cs p = Some j" "i = Suc j" by auto
    from Cons.IH[OF j(1)] j(2) show ?thesis by simp
  qed
qed

lemma filter_replaceFirst:
  assumes "filter Q p = []"
  shows "filter Q (replaceFirst s p []) = filter Q s"
proof (cases "indexOf s p")
  case None
  then show ?thesis by (simp add: replaceFirst_def)
next
  case (Some i)
  from indexOf_split[OF Some]
  have "filter Q s = filter Q (take i s) @ filter Q p @ filter Q (drop (i + length p) s)"
    by (metis filter_append)
  with assms Some show ?thesis by (simp add: replaceFirst_def)
qed

lemma symbol_not_kept:
  "\<forall>p \<in> set currencyPatterns. filter keepChar (fst p) = []"
  by (auto simp: currencyPatterns_def keepChar_def isDigit_def)

lemma symbolLoop_kept:
  "\<forall>p \<in> set pats. filter keepChar (fst p) = [] \<Longrightarrow>
   filter keepChar (snd (symbolLoop pats cleaned)) = filter keepChar cleaned"
  by (induction pats cleaned rule: symbolLoop.induct)
     (simp_all add: filter_trim filter_replaceFirst)

lemma keepChar_upperAscii: "keepChar c \<Longrightarrow> upperAscii c = c"
  by (auto simp: keepChar_def isDigit_def upperAscii_def isLower_def word_le_nat_alt)

lemma code_letters_not_kept:
  "code \<in> set currencyCodes \<Longrightarrow> x \<in> set code \<Longrightarrow> \<not> keepChar x"
  by (auto simp: currencyCodes_def js_def keepChar_def isDigit_def)

lemma group_not_kept:
  assumes "toUpperCase g \<in> set currencyCodes"
  shows "filter keepChar g = []"
proof -
  have "\<not> keepChar c" if "c \<in> set g" for c
  proof
    assume k: "keepChar c"
    from that have "upperAscii c \<in> set (toUpperCase g)" by (simp add: toUpperCase_def)
    with k have "c \<in> set (toUpperCase g)" by (simp add: keepChar_upperAscii)
    with assms k show False using code_letters_not_kept by blast
  qed
  then show ?thesis by (simp add: filter_empty_conv)
qed

lemma codeAt_Some:
  "codeAt prev s = Some g \<Longrightarrow> g = take 3 s \<and> 3 \<le> length s \<and> toUpperCase g \<in> set currencyCodes"
  by (auto simp: codeAt_def split: if_splits)

lemma codeSearch_Some:
  "codeSearch prev s k = Some (i, g) \<Longrightarrow>
   \<exists>j. i = k + j \<and> g = take 3 (drop j s) \<and> j + 3 \<le> length s \<and> toUpperCase g \<in> set currencyCodes"
proof (induction s arbitrary: prev k)
  case Nil
  then show ?case by simp
next
  case (Cons c cs)
  show ?case
  proof (cases "codeAt prev (c # cs)")
    case (Some g')
    with Cons.prems have "i = k" and "codeAt prev (c # cs) = Some g" by simp_all
    with codeAt_Some[of prev "c # cs" g] show ?thesis by (intro exI[of _ 0]) auto
  next
    case None
    with Cons.prems have "codeSearch (Some c) cs (Suc k) = Some (i, g)" by simp
    from Cons.IH[OF this] obtain j where
      j: "i = Suc k + j" "g = take 3 (drop j cs)" "j + 3 \<le> length cs"
         "toUpperCase g \<in> set currencyCodes" by blast
    then show ?thesis by (intro exI[of _ "Suc j"]) simp
  qed
qed

lemma codeMatch_Some:
  assumes "codeMatch s = Some (i, g)"
  shows "g = take 3 (drop i s)" "i + 3 \<le> length s" "length g = 3" "toUpperCase g \<in> set currencyCodes"
  using codeSearch_Some[of None s 0 i g] assms by (auto simp: codeMatch_def)

lemma filter_removeCode: "filter keepChar (removeCode s) = filter keepChar s"
proof (cases "codeMatch s")
  case None
  then show ?thesis by (simp add: removeCode_def)
next
  case (Some m)
  obtain i g where m: "m = (i, g)" by (cases m)
  note cm = codeMatch_Some[OF Some[unfolded m]]
  have "s = take i s @ g @ drop (i + 3) s"
    using cm(1) by (metis add.commute append_take_drop_id drop_drop)
  then have "filter keepChar s = filter keepChar (take i s) @ filter keepChar g @ filter keepChar (drop (i + 3) s)"
    by (metis filter_append)
  with group_not_kept[OF cm(4)] Some m cm(3) show ?thesis by (simp add: removeCode_def)
qed

text \<open>The amount never depends on how the currency was detected.\<close>

lemma parsePrice_unfold:
  assumes "priceText \<noteq> []"
  shows "parsePrice priceText =
     (if isNaN (parseFloat (stripFormatting priceText)) then Inl (CouldNotParse priceText)
      else Inr \<lparr>price = parseFloat (stripFormatting priceText),
                 currency = detectCurrency (trim priceText)\<rparr>)"
proof (cases "codeMatch (trim priceText)")
  case None
  have "stripFormatting (snd (symbolLoop currencyPatterns (trim priceText))) = stripFormatting priceText"
    using symbol_not_kept by (simp add: stripFormatting_filter symbolLoop_kept filter_trim)
  with None assms show ?thesis by (simp add: parsePrice_def detectCurrency_def Let_def)
next
  case (Some m)
  obtain i g where m: "m = (i, g)" by (cases m)
  have "stripFormatting (trim (removeCode (trim priceText))) = stripFormatting priceText"
    by (simp add: stripFormatting_filter filter_removeCode filter_trim)
  with Some m assms show ?thesis by (simp add: parsePrice_def detectCurrency_def Let_def)
qed

subsection \<open>Rounding to a double\<close>

lemma pow2_powi: "pow2 k = 2 powi k"
  by (simp add: pow2_def power_int_def inverse_eq_divide power_one_over)

lemma pow2_pos: "0 < pow2 k"
  by (simp add: pow2_powi)

lemma pow2_add: "pow2 (i + j) = pow2 i * pow2 j"
  by (simp add: pow2_powi power_int_add)

lemma pow2_less: "i < j \<Longrightarrow> pow2 i < pow2 j"
  by (simp add: pow2_powi power_int_strict_increasing)

lemma pow2_le: "i \<le> j \<Longrightarrow> pow2 i \<le> pow2 j"
  by (simp add: pow2_powi power_int_increasing)

lemma pow2_less_iff: "pow2 i < pow2 j \<longleftrightarrow> i < j"
  using pow2_less[of i j] pow2_le[of j i] by (auto simp: not_less[symmetric])

lemma pow2_nat: "0 \<le> k \<Longrightarrow> pow2 k = of_int (2 ^ nat k)"
  by (simp add: pow2_def)

text \<open>The test of \<open>ilog2\<close> compares \<open>2 ^ d\<close> with \<open>a / b\<close>.\<close>

lemma ilog2_test:
  assumes "0 < b"
  shows "(if 0 \<le> d then b * 2 ^ nat d \<le> a else b \<le> a * 2 ^ nat (- d)) \<longleftrightarrow>
         pow2 d \<le> of_int a / of_int b"
proof (cases "0 \<le> d")
  case True
  have "pow2 d \<le> of_int a / of_int b \<longleftrightarrow> (of_int (b * 2 ^ nat d) :: rat) \<le> of_int a"
    using assms True by (simp add: pow2_def pos_le_divide_eq mult.commute)
  also have "\<dots> \<longleftrightarrow> b * 2 ^ nat d \<le> a" by (simp only: of_int_le_iff)
  finally show ?thesis using True by simp
next
  case False
  have "pow2 d \<le> of_int a / of_int b \<longleftrightarrow> (of_int b :: rat) \<le> of_int (a * 2 ^ nat (- d))"
    using assms False by (simp add: pow2_def field_simps)
  also have "\<dots> \<longleftrightarrow> b \<le> a * 2 ^ nat (- d)" by (simp only: of_int_le_iff)
  finally show ?thesis using False by simp
qed

lemma bitlen_pow2_bounds:
  assumes "0 < x"
  shows "pow2 (bitlen x - 1) \<le> of_int x" and "of_int x < pow2 (bitlen x)"
proof -
  from assms have b: "1 \<le> bitlen x" by (simp add: bitlen_alt_def)
  from bitlen_bounds[OF assms] have "2 ^ nat (bitlen x - 1) \<le> x" "x < 2 ^ nat (bitlen x)" by simp_all
  then have "(of_int (2 ^ nat (bitlen x - 1)) :: rat) \<le> of_int x" "(of_int x :: rat) < of_int (2 ^ nat (bitlen x))"
    by (simp_all only: of_int_le_iff of_int_less_iff)
  then show "pow2 (bitlen x - 1) \<le> of_int x" "of_int x < pow2 (bitlen x)"
    using b by (simp_all add: pow2_nat)
qed

lemma ilog2_bounds:
  assumes "0 < a" and "0 < b"
  shows "pow2 (ilog2 a b) \<le> of_int a / of_int b" and "of_int a / of_int b < pow2 (ilog2 a b + 1)"
proof -
  let ?d = "bitlen a - bitlen b"
  let ?q = "of_int a / of_int b :: rat"
  note A = bitlen_pow2_bounds[OF assms(1)] and B = bitlen_pow2_bounds[OF assms(2)]
  have bpos: "(0::rat) < of_int b" using assms(2) by simp
  have up: "?q < pow2 (?d + 1)"
  proof -
    have "of_int a < pow2 (?d + 1) * pow2 (bitlen b - 1)"
      using A(2) by (simp flip: pow2_add)
    also have "\<dots> \<le> pow2 (?d + 1) * of_int b"
      using B(1) pow2_pos[of "?d + 1"] by (simp add: mult_left_mono)
    finally show ?thesis using bpos by (simp add: pos_divide_less_eq)
  qed
  have low: "pow2 (?d - 1) < ?q"
  proof -
    have "pow2 (?d - 1) * of_int b < pow2 (?d - 1) * pow2 (bitlen b)"
      using B(2) pow2_pos[of "?d - 1"] by (simp add: mult_strict_left_mono)
    also have "\<dots> = pow2 (bitlen a - 1)" by (simp flip: pow2_add)
    also have "\<dots> \<le> of_int a" by (rule A(1))
    finally show ?thesis using bpos by (simp add: pos_less_divide_eq)
  qed
  show "pow2 (ilog2 a b) \<le> ?q"
    using low ilog2_test[OF assms(2), of ?d a] by (auto simp: ilog2_def Let_def)
  show "?q < pow2 (ilog2 a b + 1)"
    using up ilog2_test[OF assms(2), of ?d a] by (auto simp: ilog2_def Let_def)
qed

lemma roundDiv_ge: "0 < d \<Longrightarrow> n div d \<le> roundDiv n d"
  by (simp add: roundDiv_def Let_def)

lemma quotient_of_pos:
  assumes "0 < q"
  shows "0 < fst (quotient_of q)" "0 < snd (quotient_of q)"
    "q = of_int (fst (quotient_of q)) / of_int (snd (quotient_of q))"
proof -
  obtain a b where ab: "quotient_of q = (a, b)" by (cases "quotient_of q")
  from quotient_of_denom_pos[OF ab] have b: "0 < b" .
  from quotient_of_div[OF ab] have q: "q = of_int a / of_int b" .
  with assms b have "0 < a" by (simp add: zero_less_divide_iff)
  with b q ab show "0 < fst (quotient_of q)" "0 < snd (quotient_of q)"
    "q = of_int (fst (quotient_of q)) / of_int (snd (quotient_of q))" by simp_all
qed

text \<open>A magnitude of \<open>2 ^ 1024\<close> or more is an infinity.\<close>

lemma toDouble_overflow:
  assumes "pow2 1024 \<le> q"
  shows "toDouble neg q = Infinity neg"
proof -
  have qpos: "0 < q" using assms pow2_pos[of 1024] by simp
  define a where "a = fst (quotient_of q)"
  define b where "b = snd (quotient_of q)"
  note ab = quotient_of_pos[OF qpos, folded a_def b_def]
  define e where "e = ilog2 a b"
  note eb = ilog2_bounds[OF ab(1,2), folded e_def, folded ab(3)]
  have "pow2 1024 < pow2 (e + 1)" using assms eb(2) by simp
  then have e: "1024 \<le> e" by (simp add: pow2_less_iff)
  define t where "t = e - 52"
  have t: "0 \<le> t" "max e (- 1022) - 52 = t" using e by (simp_all add: t_def)
  define m where "m = roundDiv a (b * 2 ^ nat t)"
  define P :: int where "P = 2 ^ 52"
  have P: "0 < P" "pow2 52 = of_int P" by (simp_all add: P_def pow2_def)
  have den: "0 < b * 2 ^ nat t" using ab(2) by simp
  have pe: "pow2 e = of_int P * pow2 t" unfolding P(2)[symmetric] by (simp add: t_def flip: pow2_add)
  have "(of_int (b * 2 ^ nat t * P) :: rat) = of_int b * pow2 e"
    unfolding pe using t(1) by (simp add: pow2_nat)
  also have "\<dots> \<le> of_int a"
    using eb(1) ab(2) unfolding ab(3) by (simp add: pos_le_divide_eq mult.commute)
  finally have "b * 2 ^ nat t * P \<le> a" by (simp only: of_int_le_iff)
  then have "(b * 2 ^ nat t * P) div (b * 2 ^ nat t) \<le> a div (b * 2 ^ nat t)"
    by (rule zdiv_mono1) (rule den)
  moreover have "(b * 2 ^ nat t * P) div (b * 2 ^ nat t) = P"
    using ab(2) by (intro nonzero_mult_div_cancel_left) simp
  ultimately have "P \<le> a div (b * 2 ^ nat t)" by simp
  with roundDiv_ge[OF den, of a] have m: "P \<le> m" by (simp add: m_def)
  have "pow2 1024 \<le> pow2 e" using e by (rule pow2_le)
  also have "\<dots> = of_int P * pow2 t" by (rule pe)
  also have "\<dots> \<le> of_int m * pow2 t"
    using m pow2_pos[of t] by (intro mult_right_mono) simp_all
  finally have v: "pow2 1024 \<le> of_int m * pow2 t" .
  have "toDouble neg q =
        (if pow2 1024 \<le> of_int m * pow2 t then Infinity neg
         else if of_int m * pow2 t = 0 then (if neg then NegZero else Finite 0)
         else Finite (if neg then - (of_int m * pow2 t) else of_int m * pow2 t))"
    using qpos t(1)
    unfolding toDouble_def Let_def a_def[symmetric] b_def[symmetric] e_def[symmetric] t(2) m_def
    by simp
  with v show ?thesis by simp
qed

lemma roundDiv_one: "roundDiv n 1 = n"
  by (simp add: roundDiv_def)

text \<open>An integer below \<open>2 ^ 53\<close> is a double.\<close>

lemma toDouble_safe_integer:
  assumes "0 < n" and "n < 2 ^ 53"
  shows "toDouble neg (of_int n) = Finite (if neg then - of_int n else of_int n)"
proof -
  define e where "e = ilog2 n 1"
  have eb: "pow2 e \<le> of_int n" "of_int n < pow2 (e + 1)"
    using ilog2_bounds[OF assms(1), of 1] by (simp_all add: e_def)
  have "pow2 0 \<le> of_int n" using assms(1) by (simp add: pow2_def)
  with eb(2) have "pow2 0 < pow2 (e + 1)" by simp
  then have e0: "0 \<le> e" by (simp add: pow2_less_iff)
  have "(of_int n :: rat) < of_int (2 ^ 53)" using assms(2) by (simp only: of_int_less_iff)
  then have "of_int n < pow2 53" by (simp add: pow2_def)
  with eb(1) have "pow2 e < pow2 53" by simp
  then have e52: "e \<le> 52" by (simp add: pow2_less_iff)
  define k where "k = 52 - e"
  have k: "0 \<le> k" "max e (- 1022) - 52 = - k" using e0 e52 by (simp_all add: k_def)
  have m: "(if 0 \<le> - k then roundDiv n (1 * 2 ^ nat (- k)) else roundDiv (n * 2 ^ nat (- (- k))) 1) = n * 2 ^ nat k"
    using k(1) by (cases "k = 0") (simp_all add: roundDiv_one)
  have v: "of_int (n * 2 ^ nat k) * pow2 (- k) = (of_int n :: rat)"
    using k(1) by (cases "k = 0") (simp_all add: pow2_def)
  have lt: "\<not> pow2 1024 \<le> (of_int n :: rat)"
    using \<open>of_int n < pow2 53\<close> pow2_less[of 53 1024] by simp
  have nz: "(of_int n :: rat) \<noteq> 0" using assms(1) by simp
  have q: "quotient_of (of_int n) = (n, 1)" by (simp add: of_int_rat quotient_of_Fract)
  have "toDouble neg (of_int n) =
        (if pow2 1024 \<le> (of_int n :: rat) then Infinity neg
         else if (of_int n :: rat) = 0 then (if neg then NegZero else Finite 0)
         else Finite (if neg then - of_int n else of_int n))"
    using nz unfolding toDouble_def Let_def q fst_conv snd_conv e_def[symmetric] k(2) m v
    by simp
  with lt nz show ?thesis by simp
qed

subsection \<open>Reading a literal\<close>

lemma exponentPart_kept: "r = [] \<or> keepChar (hd r) \<Longrightarrow> exponentPart r = 0"
  by (cases r) (auto simp: exponentPart_def keepChar_def isDigit_def)

lemma digit_facts:
  "isDigit c \<Longrightarrow> \<not> isWhiteSpace c \<and> c \<noteq> 0x2D \<and> c \<noteq> 0x2B \<and> c \<noteq> 0x2E \<and> c \<noteq> 0x49"
  unfolding isDigit_def isWhiteSpace_def by (auto simp: word_le_nat_alt)

lemma takeWhile_digits:
  "list_all isDigit ds \<Longrightarrow> r = [] \<or> \<not> isDigit (hd r) \<Longrightarrow> takeWhile isDigit (ds @ r) = ds"
  by (cases r) (auto simp: list_all_iff takeWhile_append2 takeWhile_eq_all_conv)

lemma dropWhile_digits:
  "list_all isDigit ds \<Longrightarrow> r = [] \<or> \<not> isDigit (hd r) \<Longrightarrow> dropWhile isDigit (ds @ r) = r"
  by (cases r) (auto simp: list_all_iff dropWhile_append2)

lemma not_digit_facts:
  "\<not> isDigit (0x2E :: jschar)" "\<not> isDigit (0x2D :: jschar)"
  "\<not> isWhiteSpace (0x2E :: jschar)" "\<not> isWhiteSpace (0x2D :: jschar)"
  "keepChar (0x2E :: jschar)" "keepChar (0x2D :: jschar)"
  by (simp_all add: isDigit_def isWhiteSpace_def keepChar_def)

lemma endsLiteral_rest:
  "endsLiteral fr rest \<Longrightarrow> (rest = [] \<or> \<not> isDigit (hd rest)) \<and> (rest = [] \<or> keepChar (hd rest))"
  by (cases rest; cases fr) (auto simp: endsLiteral_def not_digit_facts)

lemma unsignedLiteral_literal:
  assumes "isLiteral ip fr" and "endsLiteral fr rest"
  shows "unsignedLiteral (ip @ (case fr of None \<Rightarrow> [] | Some fp \<Rightarrow> 0x2E # fp) @ rest) =
         Some (literalValue ip fr)"
proof (cases fr)
  case None
  with assms have ip: "list_all isDigit ip" "ip \<noteq> []" by (simp_all add: isLiteral_def)
  from assms(2) None have nd: "rest = [] \<or> \<not> isDigit (hd rest)" and nk: "rest = [] \<or> keepChar (hd rest)"
    and dot: "headOpt rest \<noteq> Some 0x2E"
    by (cases rest; auto simp: endsLiteral_def headOpt_def not_digit_facts)+
  have t: "takeWhile isDigit (ip @ rest) = ip" by (rule takeWhile_digits[OF ip(1) nd])
  have d: "dropWhile isDigit (ip @ rest) = rest" by (rule dropWhile_digits[OF ip(1) nd])
  show ?thesis
    using None ip(2) dot exponentPart_kept[OF nk]
    by (simp add: unsignedLiteral_def t d scale10_def decimalValue_def literalValue_def)
next
  case (Some fp)
  with assms have ip: "list_all isDigit ip" and fp: "list_all isDigit fp" and ne: "ip \<noteq> [] \<or> fp \<noteq> []"
    by (simp_all add: isLiteral_def)
  note r = endsLiteral_rest[OF assms(2)]
  have t1: "takeWhile isDigit (ip @ 0x2E # fp @ rest) = ip"
    using takeWhile_digits[OF ip, of "0x2E # fp @ rest"] by (simp add: not_digit_facts)
  have d1: "dropWhile isDigit (ip @ 0x2E # fp @ rest) = 0x2E # fp @ rest"
    using dropWhile_digits[OF ip, of "0x2E # fp @ rest"] by (simp add: not_digit_facts)
  have t2: "takeWhile isDigit (fp @ rest) = fp" using takeWhile_digits[OF fp] r by blast
  have d2: "dropWhile isDigit (fp @ rest) = rest" using dropWhile_digits[OF fp] r by blast
  show ?thesis
    using Some ne t2 d2 exponentPart_kept[of rest] r
    by (auto simp: unsignedLiteral_def t1 d1 headOpt_def scale10_def Let_def literalValue_def)
qed

lemma literal_body_head:
  assumes "isLiteral ip fr"
  shows "\<exists>c t. ip @ (case fr of None \<Rightarrow> [] | Some fp \<Rightarrow> 0x2E # fp) @ rest = c # t
           \<and> (isDigit c \<or> c = 0x2E)"
proof (cases ip)
  case Nil
  with assms show ?thesis by (cases fr) (auto simp: isLiteral_def)
next
  case (Cons d ds)
  with assms show ?thesis by (auto simp: isLiteral_def)
qed

lemma signedLiteral_literal:
  assumes "isLiteral ip fr" and "endsLiteral fr rest"
  shows "signedLiteral neg (ip @ (case fr of None \<Rightarrow> [] | Some fp \<Rightarrow> 0x2E # fp) @ rest) =
         toDouble neg (literalValue ip fr)"
proof -
  from literal_body_head[OF assms(1), of rest] obtain c t where
    c: "ip @ (case fr of None \<Rightarrow> [] | Some fp \<Rightarrow> 0x2E # fp) @ rest = c # t" "isDigit c \<or> c = 0x2E"
    by blast
  from c(2) have "c \<noteq> 0x49" using digit_facts[of c] by auto
  then have "\<not> startsWith (c # t) (js ''Infinity'')" by (simp add: js_def)
  then show ?thesis
    using unsignedLiteral_literal[OF assms] c(1)
    by (simp add: signedLiteral_def)
qed

lemma parseFloat_literal:
  assumes "isLiteral ip fr" and "endsLiteral fr rest"
  shows "parseFloat (literalText neg ip fr @ rest) = toDouble neg (literalValue ip fr)"
proof -
  let ?body = "ip @ (case fr of None \<Rightarrow> [] | Some fp \<Rightarrow> 0x2E # fp) @ rest"
  from literal_body_head[OF assms(1), of rest] obtain c t where
    c: "?body = c # t" "isDigit c \<or> c = 0x2E"
    by blast
  from c(2) have f: "\<not> isWhiteSpace c" "c \<noteq> 0x2D" "c \<noteq> 0x2B"
    using digit_facts[of c] by (auto simp: not_digit_facts)
  show ?thesis
  proof (cases neg)
    case True
    have "literalText neg ip fr @ rest = 0x2D # ?body" using True by (simp add: literalText_def)
    then show ?thesis
      using signedLiteral_literal[OF assms, of True] True
      by (simp add: parseFloat_def trimStart_def not_digit_facts)
  next
    case False
    have "literalText neg ip fr @ rest = c # t" using False c(1) by (simp add: literalText_def)
    then show ?thesis
      using signedLiteral_literal[OF assms, of False] False f c(1)
      by (simp add: parseFloat_def trimStart_def)
  qed
qed

lemma toDouble_not_NaN: "toDouble neg q \<noteq> NaN"
  by (simp add: toDouble_def Let_def)

text \<open>
  Rounding at work: a value a double holds is kept; 19.99 and 1.2 go to their nearest
  doubles; \<open>2 ^ 53 + 1\<close> and \<open>2 ^ 53 + 3\<close> are ties and go to the even significand; zero
  keeps its sign.
\<close>

lemma toDouble_examples:
  "toDouble False 50 = Finite 50"
  "toDouble False (1999 / 100) = Finite (5626684784446013 / 281474976710656)"
  "toDouble False (6 / 5) = Finite (5404319552844595 / 4503599627370496)"
  "toDouble False 9007199254740993 = Finite 9007199254740992"
  "toDouble False 9007199254740995 = Finite 9007199254740996"
  "toDouble True 0 = NegZero"
  by code_simp+

text \<open>
  Claim C10. \<open>parsePrice\<close> does not fail on a filtered text that merely begins with a
  number: when the text left by the character filter starts with a decimal literal that
  what follows cannot extend (a minus sign, or a second dot), the result is the Number
  value of that literal, that is its value rounded to a double, and the rest is ignored.
  So \<open>$19.99 - $29.99\<close>, filtered to \<open>19.99-29.99\<close>, yields the double 19.99, and
  \<open>1.2.3\<close> yields the double 1.2.
\<close>

theorem parsePrice_numeric_prefix:
  assumes "stripFormatting s = literalText neg ip fr @ rest"
    and "isLiteral ip fr" and "endsLiteral fr rest"
  shows "parsePrice s =
         Inr \<lparr>price = toDouble neg (literalValue ip fr), currency = detectCurrency (trim s)\<rparr>"
proof -
  have "stripFormatting s \<noteq> []"
    using literal_body_head[OF assms(2), of rest] assms(1) by (auto simp: literalText_def)
  then have ne: "s \<noteq> []" by (auto simp: stripFormatting_def)
  from parseFloat_literal[OF assms(2,3), of neg]
  show ?thesis using assms(1) by (simp add: parsePrice_unfold[OF ne] isNaN_def toDouble_not_NaN)
qed

theorem parsePrice_numeric_prefix_witness:
  "stripFormatting (js ''$19.99 - $29.99'') = js ''19.99-29.99''
   \<and> parsePrice (js ''$19.99 - $29.99'') =
       Inr \<lparr>price = Finite (5626684784446013 / 281474976710656), currency = js ''USD''\<rparr>
   \<and> toDouble False (1999 / 100) = Finite (5626684784446013 / 281474976710656)
   \<and> parsePrice (js ''1.2.3'') =
       Inr \<lparr>price = Finite (5404319552844595 / 4503599627370496), currency = js ''USD''\<rparr>
   \<and> toDouble False (6 / 5) = Finite (5404319552844595 / 4503599627370496)
   \<and> parsePrice (js ''10-20'') = Inr \<lparr>price = Finite 10, currency = js ''USD''\<rparr>
   \<and> parsePrice (js ''9007199254740993-1'') =
       Inr \<lparr>price = Finite 9007199254740992, currency = js ''USD''\<rparr>"
proof -
  have a: "stripFormatting (js ''$19.99 - $29.99'') = literalText False (js ''19'') (Some (js ''99'')) @ js ''-29.99''"
    by code_simp
  have b: "stripFormatting (js ''1.2.3'') = literalText False (js ''1'') (Some (js ''2'')) @ js ''.3''"
    by code_simp
  have c: "stripFormatting (js ''10-20'') = literalText False (js ''10'') None @ js ''-20''"
    by code_simp
  have d: "stripFormatting (js ''9007199254740993-1'') =
           literalText False (js ''9007199254740993'') None @ js ''-1''"
    by code_simp
  have h: "isLiteral (js ''19'') (Some (js ''99''))" "endsLiteral (Some (js ''99'')) (js ''-29.99'')"
    "isLiteral (js ''1'') (Some (js ''2''))" "endsLiteral (Some (js ''2'')) (js ''.3'')"
    "isLiteral (js ''10'') None" "endsLiteral None (js ''-20'')"
    "isLiteral (js ''9007199254740993'') None" "endsLiteral None (js ''-1'')"
    by code_simp+
  have cur: "detectCurrency (trim (js ''$19.99 - $29.99'')) = js ''USD''"
    "detectCurrency (trim (js ''1.2.3'')) = js ''USD''"
    "detectCurrency (trim (js ''10-20'')) = js ''USD''"
    "detectCurrency (trim (js ''9007199254740993-1'')) = js ''USD''" by code_simp+
  have v: "literalValue (js ''19'') (Some (js ''99'')) = 1999 / 100"
    "literalValue (js ''1'') (Some (js ''2'')) = 6 / 5"
    "literalValue (js ''10'') None = 10"
    "literalValue (js ''9007199254740993'') None = 9007199254740993" by code_simp+
  have r: "toDouble False (1999 / 100) = Finite (5626684784446013 / 281474976710656)"
    "toDouble False (6 / 5) = Finite (5404319552844595 / 4503599627370496)"
    "toDouble False 10 = Finite 10"
    "toDouble False 9007199254740993 = Finite 9007199254740992" by code_simp+
  have s3: "stripFormatting (js ''$19.99 - $29.99'') = js ''19.99-29.99''" by code_simp
  show ?thesis
    using parsePrice_numeric_prefix[OF a h(1,2)] parsePrice_numeric_prefix[OF b h(3,4)]
      parsePrice_numeric_prefix[OF c h(5,6)] parsePrice_numeric_prefix[OF d h(7,8)] s3 r(1,2)
    unfolding cur v r by blast
qed

subsection \<open>Currency detection\<close>

lemma symbolLoop_find:
  "fst (symbolLoop pats cleaned) =
     (case find (\<lambda>p. includes_str cleaned (fst p)) pats of None \<Rightarrow> js ''USD'' | Some p \<Rightarrow> snd p)"
  by (induction pats cleaned rule: symbolLoop.induct) simp_all

lemma find_SomeD: "find P xs = Some x \<Longrightarrow> P x \<and> x \<in> set xs"
  by (induction xs) (auto split: if_splits)

lemma parseFloat_Nil: "parseFloat [] = NaN"
  by (simp add: parseFloat_def trimStart_def)

lemma amount_parsePrice:
  "amount (parsePrice s) =
     (if isNaN (parseFloat (stripFormatting s)) then None else Some (parseFloat (stripFormatting s)))"
proof (cases "s = []")
  case True
  then show ?thesis by (simp add: parsePrice_def amount_def stripFormatting_def parseFloat_Nil isNaN_def)
next
  case False
  then show ?thesis by (simp add: parsePrice_unfold amount_def)
qed

subsection \<open>Prices beyond the finite doubles\<close>

lemma decimalValue_nines_acc:
  "foldl (\<lambda>a c. 10 * a + int (digitVal c)) a (replicate n 0x39) = (a + 1) * 10 ^ n - 1"
proof -
  have nine: "digitVal 0x39 = 9" by code_simp
  show ?thesis by (induction n arbitrary: a) (simp_all add: nine algebra_simps)
qed

lemma decimalValue_nines: "decimalValue (replicate n 0x39) = 10 ^ n - 1"
  by (simp add: decimalValue_def decimalValue_nines_acc)

text \<open>A run of 310 nines is more than the largest double: the price is an infinity.\<close>

lemma parsePrice_overflow:
  "amount (parsePrice (replicate 310 0x39 @ js ''-1'')) = Some (Infinity False)"
proof -
  have nine: "keepChar 0x39" "isDigit 0x39" by (simp_all add: keepChar_def isDigit_def)
  have s: "stripFormatting (replicate 310 0x39 @ js ''-1'') = literalText False (replicate 310 0x39) None @ js ''-1''"
    using nine(1) by (simp add: stripFormatting_filter literalText_def js_def keepChar_def isDigit_def)
  have l: "isLiteral (replicate 310 0x39) None"
    using nine(2) by (simp add: isLiteral_def list_all_iff)
  have e: "endsLiteral None (js ''-1'')" by (simp add: endsLiteral_def js_def)
  have "(2::int) ^ 1024 \<le> 10 ^ 310 - 1" by simp
  then have "(of_int (2 ^ 1024) :: rat) \<le> of_int (10 ^ 310 - 1)" by (simp only: of_int_le_iff)
  then have big: "pow2 1024 \<le> literalValue (replicate 310 0x39) None"
    by (simp add: literalValue_def decimalValue_nines pow2_def)
  have "parseFloat (stripFormatting (replicate 310 0x39 @ js ''-1'')) = Infinity False"
    unfolding s parseFloat_literal[OF l e] by (rule toDouble_overflow[OF big])
  then show ?thesis by (simp add: amount_parsePrice isNaN_def)
qed

text \<open>A literal of value zero behind a minus sign is negative zero.\<close>

lemma parsePrice_negative_zero: "parsePrice (js ''-0'') = Inr \<lparr>price = NegZero, currency = js ''USD''\<rparr>"
  by code_simp

subsection \<open>Trimming neither adds nor removes a symbol or a code token\<close>

lemma indexOf_single: "indexOf s [c] = None \<longleftrightarrow> c \<notin> set s"
  by (induction s) auto

lemma includes_single: "includes_str s [c] \<longleftrightarrow> c \<in> set s"
  by (simp add: includes_str_def indexOf_single)

lemma set_dropWhile_keep: "\<not> P c \<Longrightarrow> c \<in> set (dropWhile P s) \<longleftrightarrow> c \<in> set s"
  by (induction s) auto

lemma set_trim: "\<not> isWhiteSpace c \<Longrightarrow> c \<in> set (trim s) \<longleftrightarrow> c \<in> set s"
  by (simp add: trim_def set_dropWhile_keep)

lemma symbol_single:
  "p \<in> set currencyPatterns \<Longrightarrow> \<exists>c. fst p = [c] \<and> \<not> isWhiteSpace c"
  by (auto simp: currencyPatterns_def isWhiteSpace_def)

lemma includes_trim_symbol:
  "p \<in> set currencyPatterns \<Longrightarrow> includes_str (trim s) (fst p) \<longleftrightarrow> includes_str s (fst p)"
  using symbol_single[of p] by (auto simp: includes_single set_trim)

lemma find_trim_symbol:
  "find (\<lambda>p. includes_str (trim s) (fst p)) currencyPatterns =
   find (\<lambda>p. includes_str s (fst p)) currencyPatterns"
  by (rule find_cong) (simp_all add: includes_trim_symbol)

lemma whitespace_not_word: "isWhiteSpace c \<Longrightarrow> \<not> isWordChar c"
  unfolding isWhiteSpace_def isWordChar_def isDigit_def isUpper_def isLower_def
  by (auto simp: word_le_nat_alt)

lemma whitespace_upperAscii: "isWhiteSpace c \<Longrightarrow> upperAscii c = c"
  unfolding isWhiteSpace_def upperAscii_def isLower_def by (auto simp: word_le_nat_alt)

lemma code_letters_not_space:
  "code \<in> set currencyCodes \<Longrightarrow> x \<in> set code \<Longrightarrow> \<not> isWhiteSpace x"
  by (auto simp: currencyCodes_def js_def isWhiteSpace_def)

lemma group_no_space:
  assumes "toUpperCase g \<in> set currencyCodes" and "c \<in> set g"
  shows "\<not> isWhiteSpace c"
proof
  assume w: "isWhiteSpace c"
  from assms(2) have "upperAscii c \<in> set (toUpperCase g)" by (simp add: toUpperCase_def)
  with w have "c \<in> set (toUpperCase g)" by (simp add: whitespace_upperAscii)
  with assms(1) w show False using code_letters_not_space by blast
qed

lemma wordBoundary_prev:
  "(case prev of None \<Rightarrow> False | Some c \<Rightarrow> isWordChar c) =
   (case prev' of None \<Rightarrow> False | Some c \<Rightarrow> isWordChar c) \<Longrightarrow>
   wordBoundary prev x = wordBoundary prev' x"
  by (simp add: wordBoundary_def)

lemma codeAt_prev:
  "(case prev of None \<Rightarrow> False | Some c \<Rightarrow> isWordChar c) =
   (case prev' of None \<Rightarrow> False | Some c \<Rightarrow> isWordChar c) \<Longrightarrow>
   codeAt prev s = codeAt prev' s"
  by (simp add: codeAt_def wordBoundary_prev[of prev prev'])

lemma codeSearch_prev:
  "(case prev of None \<Rightarrow> False | Some c \<Rightarrow> isWordChar c) =
   (case prev' of None \<Rightarrow> False | Some c \<Rightarrow> isWordChar c) \<Longrightarrow>
   codeSearch prev s k = codeSearch prev' s k"
  by (cases s) (simp_all add: codeAt_prev[of prev prev'])

lemma codeSearch_shift:
  "codeSearch prev s (k + d) = map_option (\<lambda>(i, g). (i + d, g)) (codeSearch prev s k)"
proof (induction s arbitrary: prev k)
  case Nil
  then show ?case by simp
next
  case (Cons c cs)
  have "codeSearch (Some c) cs (Suc (k + d)) =
        map_option (\<lambda>(i, g). (i + d, g)) (codeSearch (Some c) cs (Suc k))"
    using Cons.IH[of "Some c" "Suc k"] by simp
  then show ?case by (simp split: option.splits)
qed

lemma codeAt_space_head: "isWhiteSpace c \<Longrightarrow> codeAt prev (c # cs) = None"
proof (rule ccontr)
  assume w: "isWhiteSpace c" and "codeAt prev (c # cs) \<noteq> None"
  then obtain g where "codeAt prev (c # cs) = Some g" by auto
  from codeAt_Some[OF this] have "toUpperCase g \<in> set currencyCodes" "c \<in> set g" by auto
  with w show False using group_no_space by blast
qed

lemma codeSearch_leading:
  "codeSearch None (dropWhile isWhiteSpace s) 0 =
   map_option (\<lambda>(i, g). (i - length (takeWhile isWhiteSpace s), g)) (codeSearch None s 0)
   \<and> (\<forall>i g. codeSearch None s 0 = Some (i, g) \<longrightarrow> length (takeWhile isWhiteSpace s) \<le> i)"
proof (induction s)
  case Nil
  then show ?case by simp
next
  case (Cons c cs)
  show ?case
  proof (cases "isWhiteSpace c")
    case True
    have "codeSearch None (c # cs) 0 = codeSearch (Some c) cs (0 + 1)"
      using True by (simp add: codeAt_space_head)
    also have "\<dots> = codeSearch None cs (0 + 1)"
      using True by (intro codeSearch_prev) (simp add: whitespace_not_word)
    also have "\<dots> = map_option (\<lambda>(i, g). (i + 1, g)) (codeSearch None cs 0)"
      by (rule codeSearch_shift)
    finally have e: "codeSearch None (c # cs) 0 = map_option (\<lambda>(i, g). (i + 1, g)) (codeSearch None cs 0)" .
    show ?thesis using True Cons.IH unfolding e
      by (cases "codeSearch None cs 0") (auto split: prod.splits)
  next
    case False
    then show ?thesis by (cases "codeSearch None (c # cs) 0") (auto split: prod.splits)
  qed
qed

lemma codeAt_trailing:
  assumes "list_all isWhiteSpace ws"
  shows "codeAt prev (s @ ws) = codeAt prev s"
proof (cases "3 \<le> length s")
  case True
  have h: "(case headOpt (drop 3 (s @ ws)) of None \<Rightarrow> False | Some c \<Rightarrow> isWordChar c) =
           (case headOpt (drop 3 s) of None \<Rightarrow> False | Some c \<Rightarrow> isWordChar c)"
  proof (cases "drop 3 s")
    case Nil
    with True have "drop 3 (s @ ws) = ws" by simp
    with Nil assms show ?thesis by (cases ws) (auto simp: headOpt_def whitespace_not_word)
  next
    case (Cons a as)
    then show ?thesis by (simp add: headOpt_def)
  qed
  have hd: "headOpt (s @ ws) = headOpt s" using True by (cases s) (auto simp: headOpt_def)
  from True h hd show ?thesis by (simp add: codeAt_def wordBoundary_def nth_append)
next
  case False
  then have n: "codeAt prev s = None" by (simp add: codeAt_def)
  have "codeAt prev (s @ ws) = None"
  proof (rule ccontr)
    assume "codeAt prev (s @ ws) \<noteq> None"
    then obtain g where g: "codeAt prev (s @ ws) = Some g" by auto
    from codeAt_Some[OF g] have t: "g = take 3 (s @ ws)" "3 \<le> length (s @ ws)"
      "toUpperCase g \<in> set currencyCodes" by auto
    from False t(2) have "ws \<noteq> []" by auto
    then obtain w ws' where w: "ws = w # ws'" by (cases ws) auto
    with False t(1) have "w \<in> set g" by (auto simp: in_set_conv_decomp take_Cons' split: if_splits)
    moreover from w assms have "isWhiteSpace w" by simp
    ultimately show False using group_no_space[OF t(3)] by blast
  qed
  with n show ?thesis by simp
qed

lemma codeSearch_spaces:
  "list_all isWhiteSpace ws \<Longrightarrow> codeSearch prev ws k = None"
  by (induction ws arbitrary: prev k) (auto simp: codeAt_space_head)

lemma codeSearch_trailing:
  assumes "list_all isWhiteSpace ws"
  shows "codeSearch prev (s @ ws) k = codeSearch prev s k"
proof (induction s arbitrary: prev k)
  case Nil
  then show ?case using assms by (simp add: codeSearch_spaces)
next
  case (Cons c cs)
  have "codeAt prev (c # cs @ ws) = codeAt prev (c # cs)"
    using codeAt_trailing[OF assms, of prev "c # cs"] by simp
  then show ?case by (simp add: Cons.IH split: option.splits)
qed

lemma trailing_decomp:
  "\<exists>ws. list_all isWhiteSpace ws \<and> s = rev (dropWhile isWhiteSpace (rev s)) @ ws"
proof -
  have "rev s = takeWhile isWhiteSpace (rev s) @ dropWhile isWhiteSpace (rev s)" by simp
  then have "s = rev (dropWhile isWhiteSpace (rev s)) @ rev (takeWhile isWhiteSpace (rev s))"
    by (metis rev_append rev_rev_ident)
  moreover have "list_all isWhiteSpace (rev (takeWhile isWhiteSpace (rev s)))"
    by (simp add: list_all_iff) (meson set_takeWhileD)
  ultimately show ?thesis by blast
qed

lemma codeMatch_trim:
  "codeMatch (trim s) =
   map_option (\<lambda>(i, g). (i - length (takeWhile isWhiteSpace s), g)) (codeMatch s)"
proof -
  obtain ws where ws: "list_all isWhiteSpace ws" "dropWhile isWhiteSpace s = trim s @ ws"
    using trailing_decomp[of "dropWhile isWhiteSpace s"] by (auto simp: trim_def)
  have "codeMatch (trim s) = codeSearch None (trim s @ ws) 0"
    by (simp add: codeMatch_def codeSearch_trailing[OF ws(1)])
  also have "\<dots> = codeSearch None (dropWhile isWhiteSpace s) 0" by (simp add: ws(2))
  finally show ?thesis using codeSearch_leading[of s] by (simp add: codeMatch_def)
qed

lemma codeMatch_trim_iff:
  "(\<exists>i. codeMatch (trim s) = Some (i, g)) \<longleftrightarrow> (\<exists>i. codeMatch s = Some (i, g))"
  by (cases "codeMatch s") (auto simp: codeMatch_trim)

text \<open>
  Claim C1. When the text holds a known currency symbol and a code token (the code pattern
  matches), the result carries the currency of the leftmost code token, in upper case and
  one of the ten listed codes, and not the symbol's; it succeeds exactly when the filtered
  text parses, and its amount is the amount of the same text with the code token removed.
  \<open>$50 EUR\<close> yields 50 and \<open>EUR\<close>.
\<close>

theorem code_overrides_symbol:
  assumes "(symb, code) \<in> set currencyPatterns"
    and "includes_str s symb"
    and "codeMatch s = Some (i, g)"
  shows "toUpperCase g \<in> set currencyCodes
       \<and> parsePrice s =
           (if isNaN (parseFloat (stripFormatting s)) then Inl (CouldNotParse s)
            else Inr \<lparr>price = parseFloat (stripFormatting s), currency = toUpperCase g\<rparr>)
       \<and> amount (parsePrice s) = amount (parsePrice (removeCode s))"
proof -
  have ne: "s \<noteq> []" using codeMatch_Some(2)[OF assms(3)] by auto
  have "codeMatch (trim s) = Some (i - length (takeWhile isWhiteSpace s), g)"
    using assms(3) by (simp add: codeMatch_trim)
  then have "detectCurrency (trim s) = toUpperCase g" by (simp add: detectCurrency_def)
  with parsePrice_unfold[OF ne]
  have "parsePrice s =
           (if isNaN (parseFloat (stripFormatting s)) then Inl (CouldNotParse s)
            else Inr \<lparr>price = parseFloat (stripFormatting s), currency = toUpperCase g\<rparr>)"
    by simp
  moreover have "amount (parsePrice s) = amount (parsePrice (removeCode s))"
    by (simp only: amount_parsePrice stripFormatting_filter filter_removeCode)
  ultimately show ?thesis using codeMatch_Some(4)[OF assms(3)] by blast
qed

theorem code_overrides_symbol_witness:
  "([0x24], js ''USD'') \<in> set currencyPatterns
   \<and> includes_str (js ''$50 EUR'') [0x24]
   \<and> codeMatch (js ''$50 EUR'') = Some (4, js ''EUR'')
   \<and> parsePrice (js ''$50 EUR'') = Inr \<lparr>price = Finite 50, currency = js ''EUR''\<rparr>
   \<and> removeCode (js ''$50 EUR'') = js ''$50 ''
   \<and> amount (parsePrice (js ''$50 '')) = Some (Finite 50)"
proof -
  have a: "([0x24], js ''USD'') \<in> set currencyPatterns" by (simp add: currencyPatterns_def)
  have b: "includes_str (js ''$50 EUR'') [0x24]" by code_simp
  have c: "codeMatch (js ''$50 EUR'') = Some (4, js ''EUR'')" by code_simp
  have d: "parseFloat (stripFormatting (js ''$50 EUR'')) = Finite 50" by code_simp
  have e: "toUpperCase (js ''EUR'') = js ''EUR''" by code_simp
  have f: "removeCode (js ''$50 EUR'') = js ''$50 ''" by code_simp
  from code_overrides_symbol[OF a b c]
  have p: "parsePrice (js ''$50 EUR'') =
           (if isNaN (parseFloat (stripFormatting (js ''$50 EUR''))) then Inl (CouldNotParse (js ''$50 EUR''))
            else Inr \<lparr>price = parseFloat (stripFormatting (js ''$50 EUR'')), currency = toUpperCase (js ''EUR'')\<rparr>)"
    and q: "amount (parsePrice (js ''$50 EUR'')) = amount (parsePrice (removeCode (js ''$50 EUR'')))"
    by blast+
  from p have p': "parsePrice (js ''$50 EUR'') = Inr \<lparr>price = Finite 50, currency = js ''EUR''\<rparr>"
    unfolding d e by (simp add: isNaN_def)
  from q have "amount (parsePrice (js ''$50 '')) = Some (Finite 50)"
    unfolding f p' by (simp add: amount_def)
  with a b c p' f show ?thesis by blast
qed

text \<open>
  Claim C2. Among the currency symbols that occur in the text, the symbol loop selects the
  first entry of the table in table order, wherever the symbols stand in the text: a text
  that contains \<open>$\<close> anywhere is USD. Where no code token overrides it, that is the
  currency \<open>parsePrice\<close> returns. The euro sign followed by \<open>5 $\<close> yields USD.
\<close>

theorem first_table_entry_wins:
  assumes "find (\<lambda>p. includes_str s (fst p)) currencyPatterns = Some (symb, code)"
  shows "fst (symbolLoop currencyPatterns (trim s)) = code
       \<and> (includes_str s [0x24] \<longrightarrow> code = js ''USD'')
       \<and> (codeMatch s = None \<longrightarrow>
            parsePrice s =
              (if isNaN (parseFloat (stripFormatting s)) then Inl (CouldNotParse s)
               else Inr \<lparr>price = parseFloat (stripFormatting s), currency = code\<rparr>))"
proof -
  have c: "fst (symbolLoop currencyPatterns (trim s)) = code"
    using assms by (simp add: symbolLoop_find find_trim_symbol)
  have "includes_str s symb" using find_SomeD[OF assms] by simp
  then have ne: "s \<noteq> []" using find_SomeD[OF assms]
    by (auto simp: includes_str_def currencyPatterns_def split: if_splits)
  have d: "includes_str s [0x24] \<longrightarrow> code = js ''USD''"
    using assms by (auto simp: currencyPatterns_def)
  have "codeMatch s = None \<longrightarrow> detectCurrency (trim s) = code"
    using c by (simp add: detectCurrency_def codeMatch_trim)
  with c d parsePrice_unfold[OF ne] show ?thesis by simp
qed

theorem first_table_entry_wins_witness:
  "find (\<lambda>p. includes_str ([0x20AC] @ js ''5 $'') (fst p)) currencyPatterns = Some ([0x24], js ''USD'')
   \<and> indexOf ([0x20AC] @ js ''5 $'') [0x20AC] = Some 0
   \<and> indexOf ([0x20AC] @ js ''5 $'') [0x24] = Some 3
   \<and> codeMatch ([0x20AC] @ js ''5 $'') = None
   \<and> parsePrice ([0x20AC] @ js ''5 $'') = Inr \<lparr>price = Finite 5, currency = js ''USD''\<rparr>"
proof -
  have a: "find (\<lambda>p. includes_str ([0x20AC] @ js ''5 $'') (fst p)) currencyPatterns = Some ([0x24], js ''USD'')"
    by code_simp
  have b: "codeMatch ([0x20AC] @ js ''5 $'') = None" by code_simp
  have c: "parseFloat (stripFormatting ([0x20AC] @ js ''5 $'')) = Finite 5" by code_simp
  have d: "indexOf ([0x20AC] @ js ''5 $'') [0x20AC] = Some 0" by code_simp
  have e: "indexOf ([0x20AC] @ js ''5 $'') [0x24] = Some 3" by code_simp
  from first_table_entry_wins[OF a] a b c d e show ?thesis by (simp add: isNaN_def)
qed

subsection \<open>Retry\<close>

lemma retryLoop_done:
  "\<not> int k < m \<Longrightarrow> retryLoop slp fn m b k le s = (Inl le, s)"
  by (subst retryLoop.simps) simp

lemma retryLoop_fail_step:
  assumes "int k < m" and "fn s = (Inl e, s1)"
  shows "retryLoop slp fn m b k le s =
         retryLoop slp fn m b (Suc k) (Some e) (if int k < m - 1 then slp (b * 2 ^ k) s1 else s1)"
  using assms by (subst retryLoop.simps) simp

lemma retryLoop_fails:
  assumes "\<forall>j < n. isl (fst (fn (stateBefore slp fn b j s)))" and "k < n"
  shows "retryLoop slp fn (int n) b k le (stateBefore slp fn b k s) =
         (Inl (errorOf (fst (fn (stateBefore slp fn b (n - 1) s)))),
          snd (fn (stateBefore slp fn b (n - 1) s)))"
  using assms(2)
proof (induction "n - 1 - k" arbitrary: k le)
  case 0
  then have k: "k = n - 1" by simp
  from assms(1) 0(2) obtain e s1 where f: "fn (stateBefore slp fn b k s) = (Inl e, s1)"
    by (metis isl_def prod.collapse)
  have "retryLoop slp fn (int n) b k le (stateBefore slp fn b k s) =
        retryLoop slp fn (int n) b (Suc k) (Some e) s1"
    using retryLoop_fail_step[of k "int n" fn "stateBefore slp fn b k s" e s1 slp b le] f 0(2) k by simp
  also have "\<dots> = (Inl (Some e), s1)" using k 0(2) by (simp add: retryLoop_done)
  finally show ?case using f k by (simp add: errorOf_def)
next
  case (Suc d)
  then have k: "Suc k < n" by simp
  from assms(1) Suc(3) obtain e s1 where f: "fn (stateBefore slp fn b k s) = (Inl e, s1)"
    by (metis isl_def prod.collapse)
  have "retryLoop slp fn (int n) b k le (stateBefore slp fn b k s) =
        retryLoop slp fn (int n) b (Suc k) (Some e) (slp (b * 2 ^ k) s1)"
    using retryLoop_fail_step[of k "int n" fn "stateBefore slp fn b k s" e s1 slp b le] f k by simp
  also have "slp (b * 2 ^ k) s1 = stateBefore slp fn b (Suc k) s" using f by simp
  also have "retryLoop slp fn (int n) b (Suc k) (Some e) (stateBefore slp fn b (Suc k) s) =
        (Inl (errorOf (fst (fn (stateBefore slp fn b (n - 1) s)))),
          snd (fn (stateBefore slp fn b (n - 1) s)))"
    using Suc(1)[of "Suc k"] Suc(2) k by simp
  finally show ?case .
qed

lemma fst_logFn: "fst (logFn fn (s, evs)) = fst (fn s)"
  by (simp add: logFn_def split: prod.splits)

lemma snd_logFn: "snd (logFn fn (s, evs)) = (snd (fn s), evs @ [Invoked])"
  by (simp add: logFn_def split: prod.splits)

lemma stateBefore_logged:
  "stateBefore (logSleep slp) (logFn fn) b k (s, evs) =
   (stateBefore slp fn b k s, evs @ concat (map (\<lambda>i. [Invoked, Slept (b * 2 ^ i)]) [0..<k]))"
  by (induction k) (simp_all add: snd_logFn logSleep_def)

lemma map_upt_if:
  "m \<le> n \<Longrightarrow> map (\<lambda>i. if i < n then f i else g i) [0..<m] = map f [0..<m]"
  by (induction m) auto

lemma backoffEvents_last:
  assumes "0 < n"
  shows "backoffEvents n b = concat (map (\<lambda>i. [Invoked, Slept (b * 2 ^ i)]) [0..<n - 1]) @ [Invoked]"
proof -
  from assms obtain m where n: "n = Suc m" by (cases n) auto
  show ?thesis by (simp add: backoffEvents_def n map_upt_if)
qed

lemma count_invoked_pairs:
  "length (filter (\<lambda>e. e = Invoked) (concat (map (\<lambda>i. [Invoked, Slept (b * 2 ^ i)]) [0..<k]))) = k"
  by (induction k) simp_all

lemma count_backoffEvents:
  "length (filter (\<lambda>e. e = Invoked) (backoffEvents n b)) = n"
proof (cases n)
  case 0
  then show ?thesis by (simp add: backoffEvents_def)
next
  case (Suc m)
  then show ?thesis by (simp add: backoffEvents_last count_invoked_pairs)
qed

text \<open>
  Claim C5. When \<open>maxRetries\<close> is at least one and every attempt fails, \<open>retry\<close> invokes
  the operation exactly \<open>maxRetries\<close> times, sleeps \<open>baseDelay * 2 ^ i\<close> after failed
  attempt \<open>i\<close> except after the last one, and throws the error of the last invocation.
  Nothing is assumed of the errors, so every failure is retried alike.
\<close>

theorem retry_exhausted:
  assumes "1 \<le> maxRetries"
    and "\<forall>k < nat maxRetries. isl (fst (fn (stateBefore slp fn baseDelay k s)))"
  shows "\<exists>e s'. fn (stateBefore slp fn baseDelay (nat maxRetries - 1) s) = (Inl e, s')
           \<and> retry slp fn maxRetries baseDelay s = (Inl (Some e), s')
           \<and> retry (logSleep slp) (logFn fn) maxRetries baseDelay (s, []) =
               (Inl (Some e), (s', backoffEvents (nat maxRetries) baseDelay))
           \<and> length (filter (\<lambda>ev. ev = Invoked) (backoffEvents (nat maxRetries) baseDelay)) = nat maxRetries"
proof -
  from assms(1) obtain n where n: "maxRetries = int n" "0 < n"
    by (cases maxRetries rule: int_cases) auto
  have nn: "nat maxRetries = n" using n(1) by simp
  have fails: "\<forall>j < n. isl (fst (fn (stateBefore slp fn baseDelay j s)))"
    using assms(2) unfolding nn .
  with n(2) have "isl (fst (fn (stateBefore slp fn baseDelay (n - 1) s)))" by simp
  then obtain e s' where f: "fn (stateBefore slp fn baseDelay (n - 1) s) = (Inl e, s')"
    by (metis isl_def prod.collapse)
  have plain: "retry slp fn (int n) baseDelay s = (Inl (Some e), s')"
    using retryLoop_fails[OF fails n(2), of None] f by (simp add: retry_def errorOf_def)
  have hyp: "\<forall>j < n. isl (fst (logFn fn (stateBefore (logSleep slp) (logFn fn) baseDelay j (s, []))))"
    using fails by (simp add: stateBefore_logged fst_logFn)
  have logged: "retry (logSleep slp) (logFn fn) (int n) baseDelay (s, []) =
               (Inl (Some e), (s', backoffEvents n baseDelay))"
    using retryLoop_fails[OF hyp n(2), of None] n(2) f
    by (simp add: retry_def stateBefore_logged fst_logFn snd_logFn errorOf_def backoffEvents_last)
  from f plain logged show ?thesis
    unfolding nn n(1) by (simp add: count_backoffEvents)
qed

theorem retry_exhausted_witness:
  "retry (logSleep (\<lambda>ms c. c)) (logFn (\<lambda>c. (Inl c :: nat + unit, Suc c))) 3 1000 (0, []) =
     (Inl (Some 2), (3, [Invoked, Slept 1000, Invoked, Slept 2000, Invoked]))"
proof -
  have h: "\<forall>k < nat 3. isl (fst ((\<lambda>c. (Inl c :: nat + unit, Suc c)) (stateBefore (\<lambda>ms c. c) (\<lambda>c. (Inl c :: nat + unit, Suc c)) 1000 k (0::nat))))"
    by simp
  have s: "stateBefore (\<lambda>ms c. c) (\<lambda>c. (Inl c :: nat + unit, Suc c)) 1000 (nat 3 - 1) (0::nat) = 2"
    by (simp add: numeral_2_eq_2 eval_nat_numeral)
  have b: "backoffEvents (nat 3) 1000 = [Invoked, Slept 1000, Invoked, Slept 2000, Invoked]"
    by (simp add: backoffEvents_def eval_nat_numeral upt_rec)
  from retry_exhausted[of 3 "\<lambda>c. (Inl c :: nat + unit, Suc c)" "\<lambda>ms c. c" 1000 "0::nat", OF _ h]
  show ?thesis unfolding s b by auto
qed

text \<open>
  Claim C9. With \<open>maxRetries\<close> zero or negative the loop body never runs: the operation
  is not invoked, nothing sleeps, the state is untouched, and what is thrown is the
  unassigned \<open>lastError\<close>, that is \<open>undefined\<close>; a batch reports it as the text
  \<open>undefined\<close>.
\<close>

theorem retry_no_attempts:
  assumes "maxRetries \<le> 0"
  shows "retry slp fn maxRetries baseDelay s = (Inl None, s)
       \<and> retry (logSleep slp) (logFn fn) maxRetries baseDelay (s, []) = (Inl None, (s, []))
       \<and> scrapeWithRetry E r options maxRetries st = (Inl None, st)
       \<and> error (outcome r (Inl None)) = Some (js ''undefined'')"
  using assms by (simp add: retry_def scrapeWithRetry_def retryLoop_done outcome_def errorText_def)

theorem retry_no_attempts_witness:
  "retry (logSleep (\<lambda>ms c. c)) (logFn (\<lambda>c. (Inl c :: nat + unit, Suc c))) 0 1000 (0, []) = (Inl None, (0, []))
   \<and> scrapeWithRetry (fakeEngine shop False) (priceRequest (js ''http://b.example'')) noOptions 0
         (newScraper, world0) = (Inl None, (newScraper, world0))"
  using retry_no_attempts[of 0 "\<lambda>ms c. c" "\<lambda>c. (Inl c :: nat + unit, Suc c)" 1000 "0::nat"
          "fakeEngine shop False" "priceRequest (js ''http://b.example'')" noOptions "(newScraper, world0)"]
  by simp

subsection \<open>Session lifecycle\<close>

text \<open>
  Claim C8. After a call of \<open>initialize\<close> that returned, the browser reference is set
  (and, if that call did the work, so are context and page), and a further call, with any
  options and any engine, returns at once: it makes no engine call and leaves the scraper
  and the world as they are.
\<close>

theorem initialize_idempotent:
  assumes "initialize E options (this, w) = (Inr (), (this', w'))"
  shows "browser this' \<noteq> None
       \<and> (browser this = None \<longrightarrow> context_ref this' \<noteq> None \<and> page this' \<noteq> None)
       \<and> initialize E2 options2 (this', w') = (Inr (), (this', w'))"
proof -
  have b: "browser this' \<noteq> None"
    using assms by (auto simp: initialize_def split: if_splits prod.splits sum.splits)
  have c: "browser this = None \<longrightarrow> context_ref this' \<noteq> None \<and> page this' \<noteq> None"
    using assms by (auto simp: initialize_def split: if_splits prod.splits sum.splits)
  from b have "initialize E2 options2 (this', w') = (Inr (), (this', w'))"
    by (simp add: initialize_def)
  with b c show ?thesis by blast
qed

theorem initialize_idempotent_witness:
  "initialize (fakeEngine shop False) noOptions (newScraper, world0) =
     (Inr (), (liveScraper, world0\<lparr>launches := 1\<rparr>))
   \<and> initialize (fakeEngine shop False) noOptions (liveScraper, world0\<lparr>launches := 1\<rparr>) =
     (Inr (), (liveScraper, world0\<lparr>launches := 1\<rparr>))"
proof -
  have a: "initialize (fakeEngine shop False) noOptions (newScraper, world0) =
     (Inr (), (liveScraper, world0\<lparr>launches := 1\<rparr>))"
    by (simp add: initialize_def fakeEngine_def noOptions_def newScraper_def world0_def
          liveScraper_def truthy_def)
  from initialize_idempotent[OF a, of "fakeEngine shop False" noOptions] a show ?thesis by blast
qed

lemma close_all_present_ok:
  assumes "closes (page_close E) (page this) w"
    and "closes (context_close E) (context_ref this) (closeIfPresent (page_close E) (page this) w)"
    and "closes (browser_close E) (browser this)
           (closeIfPresent (context_close E) (context_ref this)
              (closeIfPresent (page_close E) (page this) w))"
  shows "close E (this, w) =
         (Inr (), (\<lparr>browser = None, context_ref = None, page = None\<rparr>,
                   closeIfPresent (browser_close E) (browser this)
                     (closeIfPresent (context_close E) (context_ref this)
                        (closeIfPresent (page_close E) (page this) w))))"
  using assms
  by (cases this)
     (auto simp: close_def closeContextLevel_def closeBrowserLevel_def closes_def closeIfPresent_def
           split: option.splits prod.splits sum.splits)

lemma close_page_fails:
  "page this = Some p \<Longrightarrow> page_close E p w = (Inl e, w2) \<Longrightarrow> close E (this, w) = (Inl e, (this, w2))"
  by (simp add: close_def)

lemma close_context_fails:
  assumes "closes (page_close E) (page this) w" and "context_ref this = Some c"
    and "context_close E c (closeIfPresent (page_close E) (page this) w) = (Inl e, w2)"
  shows "close E (this, w) = (Inl e, (this\<lparr>page := None\<rparr>, w2))"
  using assms
  by (cases this)
     (auto simp: close_def closeContextLevel_def closes_def closeIfPresent_def
           split: option.splits prod.splits sum.splits)

lemma close_browser_fails:
  assumes "closes (page_close E) (page this) w"
    and "closes (context_close E) (context_ref this) (closeIfPresent (page_close E) (page this) w)"
    and "browser this = Some b"
    and "browser_close E b
           (closeIfPresent (context_close E) (context_ref this)
              (closeIfPresent (page_close E) (page this) w)) = (Inl e, w2)"
  shows "close E (this, w) = (Inl e, (this\<lparr>page := None, context_ref := None\<rparr>, w2))"
  using assms
  by (cases this)
     (auto simp: close_def closeContextLevel_def closeBrowserLevel_def closes_def closeIfPresent_def
           split: option.splits prod.splits sum.splits)

text \<open>
  Claim C7, amended. \<open>close\<close> closes page, then context, then browser, and guards each
  level against absence only. When every close call it makes returns, all three references
  are empty afterwards and exactly the levels that were present have been closed, in that
  order. A close call that throws ends \<open>close\<close> at once: the error propagates, the level
  that failed and the later levels keep their references, and the later levels are not
  closed.
\<close>

theorem close_levels:
  "(closes (page_close E) (page this) w
      \<and> closes (context_close E) (context_ref this) (closeIfPresent (page_close E) (page this) w)
      \<and> closes (browser_close E) (browser this)
           (closeIfPresent (context_close E) (context_ref this)
              (closeIfPresent (page_close E) (page this) w))
     \<longrightarrow> close E (this, w) =
           (Inr (), (\<lparr>browser = None, context_ref = None, page = None\<rparr>,
                     closeIfPresent (browser_close E) (browser this)
                       (closeIfPresent (context_close E) (context_ref this)
                          (closeIfPresent (page_close E) (page this) w)))))
   \<and> (page this = Some p \<and> page_close E p w = (Inl e, w2)
     \<longrightarrow> close E (this, w) = (Inl e, (this, w2)))
   \<and> (closes (page_close E) (page this) w \<and> context_ref this = Some c
        \<and> context_close E c (closeIfPresent (page_close E) (page this) w) = (Inl e, w2)
     \<longrightarrow> close E (this, w) = (Inl e, (this\<lparr>page := None\<rparr>, w2)))
   \<and> (closes (page_close E) (page this) w
        \<and> closes (context_close E) (context_ref this) (closeIfPresent (page_close E) (page this) w)
        \<and> browser this = Some b
        \<and> browser_close E b
             (closeIfPresent (context_close E) (context_ref this)
                (closeIfPresent (page_close E) (page this) w)) = (Inl e, w2)
     \<longrightarrow> close E (this, w) = (Inl e, (this\<lparr>page := None, context_ref := None\<rparr>, w2)))"
  using close_all_present_ok[of E this w] close_page_fails[of this p E w e w2]
    close_context_fails[of E this w c e w2] close_browser_fails[of E this w b e w2]
  by blast

theorem close_levels_witness:
  "close (fakeEngine shop False) (liveScraper, world0) =
     (Inr (), (newScraper, world0\<lparr>closed := [js ''page'', js ''context'', js ''browser'']\<rparr>))
   \<and> close (fakeEngine shop False) (\<lparr>browser = Some 1, context_ref = None, page = None\<rparr>, world0) =
     (Inr (), (newScraper, world0\<lparr>closed := [js ''browser'']\<rparr>))
   \<and> close (fakeEngine shop True) (liveScraper, world0) =
     (Inl (EngineError (js ''Target crashed'')), (liveScraper, world0))"
proof -
  let ?E = "fakeEngine shop False"
  let ?half = "\<lparr>browser = Some 1, context_ref = None, page = None\<rparr>"
  have a: "closes (page_close ?E) r w" for r w
    by (simp add: closes_def fakeEngine_def split: option.splits)
  have b: "closes (context_close ?E) r w" for r w
    by (simp add: closes_def fakeEngine_def split: option.splits)
  have c: "closes (browser_close ?E) r w" for r w
    by (simp add: closes_def fakeEngine_def split: option.splits)
  have d: "page liveScraper = Some 3 \<and>
           page_close (fakeEngine shop True) 3 world0 = (Inl (EngineError (js ''Target crashed'')), world0)"
    by (simp add: liveScraper_def fakeEngine_def)
  have v1: "closeIfPresent (browser_close ?E) (browser liveScraper)
              (closeIfPresent (context_close ?E) (context_ref liveScraper)
                 (closeIfPresent (page_close ?E) (page liveScraper) world0)) =
            world0\<lparr>closed := [js ''page'', js ''context'', js ''browser'']\<rparr>"
    by (simp add: closeIfPresent_def liveScraper_def fakeEngine_def world0_def)
  have v2: "closeIfPresent (browser_close ?E) (browser ?half)
              (closeIfPresent (context_close ?E) (context_ref ?half)
                 (closeIfPresent (page_close ?E) (page ?half) world0)) =
            world0\<lparr>closed := [js ''browser'']\<rparr>"
    by (simp add: closeIfPresent_def fakeEngine_def world0_def)
  have "close ?E (liveScraper, world0) =
     (Inr (), (newScraper, world0\<lparr>closed := [js ''page'', js ''context'', js ''browser'']\<rparr>))"
    using close_levels[of ?E liveScraper world0] a b c unfolding v1 newScraper_def by blast
  moreover have "close ?E (?half, world0) = (Inr (), (newScraper, world0\<lparr>closed := [js ''browser'']\<rparr>))"
    using close_levels[of ?E ?half world0] a b c unfolding v2 newScraper_def by blast
  moreover have "close (fakeEngine shop True) (liveScraper, world0) =
     (Inl (EngineError (js ''Target crashed'')), (liveScraper, world0))"
    using close_levels[of "fakeEngine shop True" liveScraper world0 3 "EngineError (js ''Target crashed'')" world0] d
    by blast
  ultimately show ?thesis by blast
qed

text \<open>
  Claim C7 as stated fails: with all three levels live and a page whose close call throws,
  \<open>close\<close> throws, no reference is cleared, and neither context nor browser is closed.
\<close>

theorem close_failure_counterexample:
  "close (fakeEngine shop True) (liveScraper, world0) =
     (Inl (EngineError (js ''Target crashed'')), (liveScraper, world0))
   \<and> context_ref liveScraper = Some 2 \<and> browser liveScraper = Some 1 \<and> page liveScraper = Some 3
   \<and> closed world0 = []"
  by (simp add: close_def fakeEngine_def liveScraper_def world0_def)

subsection \<open>The price step\<close>

lemma parsePrice_blank:
  assumes "t \<noteq> []" and "list_all isWhiteSpace t"
  shows "parsePrice t = Inl (CouldNotParse t)"
proof -
  have "filter keepChar t = []"
    using assms(2) by (auto simp: filter_empty_conv list_all_iff dest: whitespace_not_kept)
  then show ?thesis
    using parsePrice_unfold[OF assms(1)] by (simp add: stripFormatting_filter parseFloat_Nil isNaN_def)
qed

lemma scrape_wraps:
  assumes "initialize E options st = (Inr (), (this, w0))" and "page this = Some p"
    and "loadPage E p (url r) options w0 = (Inr (), w)"
    and "extractPrice E p (priceSelector r) w = (Inl e, w1)"
  shows "scrape E r options st = (Inl (ScrapeFailed (url r) (message e)), (this, w1))"
  using assms by (simp add: scrape_def scrapeBody_def andThen_def)

text \<open>
  Claim C4, amended. The price step has two failure kinds of its own: no element for the
  selector is \<open>ElementNotFound\<close>, and an element whose text content is absent or the
  empty string is \<open>EmptyContent\<close>. A text of white space only is not empty for that test: it
  reaches \<open>parsePrice\<close>, which fails with \<open>CouldNotParse\<close>. \<open>scrape\<close> wraps each failure
  with the URL and the failure's message, and the three messages differ.
\<close>

theorem price_step_failures:
  "(page_query E p sel w = (Inr None, w1)
      \<longrightarrow> extractPrice E p sel w = (Inl (ElementNotFound sel), w1))
   \<and> (page_query E p sel w = (Inr (Some el), w1) \<and> (textContent el = None \<or> textContent el = Some [])
      \<longrightarrow> extractPrice E p sel w = (Inl EmptyContent, w1))
   \<and> (page_query E p sel w = (Inr (Some el), w1) \<and> textContent el = Some t \<and> t \<noteq> [] \<and> list_all isWhiteSpace t
      \<longrightarrow> extractPrice E p sel w = (Inl (CouldNotParse t), w1))
   \<and> (initialize E options st = (Inr (), (this, w0)) \<and> page this = Some p
        \<and> loadPage E p (url r) options w0 = (Inr (), w) \<and> extractPrice E p (priceSelector r) w = (Inl e, w1)
      \<longrightarrow> scrape E r options st = (Inl (ScrapeFailed (url r) (message e)), (this, w1)))
   \<and> message (ElementNotFound sel) \<noteq> message EmptyContent
   \<and> message (CouldNotParse t) \<noteq> message EmptyContent
   \<and> message (CouldNotParse t) \<noteq> message (ElementNotFound sel)"
proof -
  have 1: "page_query E p sel w = (Inr None, w1)
      \<longrightarrow> extractPrice E p sel w = (Inl (ElementNotFound sel), w1)"
    by (simp add: extractPrice_def andThen_def throw_def)
  have 2: "page_query E p sel w = (Inr (Some el), w1) \<and> (textContent el = None \<or> textContent el = Some [])
      \<longrightarrow> extractPrice E p sel w = (Inl EmptyContent, w1)"
    by (auto simp: extractPrice_def andThen_def throw_def truthy_def)
  have 3: "page_query E p sel w = (Inr (Some el), w1) \<and> textContent el = Some t \<and> t \<noteq> [] \<and> list_all isWhiteSpace t
      \<longrightarrow> extractPrice E p sel w = (Inl (CouldNotParse t), w1)"
    by (auto simp: extractPrice_def andThen_def throw_def truthy_def parsePrice_blank)
  have 4: "message (ElementNotFound sel) \<noteq> message EmptyContent"
    "message (CouldNotParse t) \<noteq> message EmptyContent"
    "message (CouldNotParse t) \<noteq> message (ElementNotFound sel)"
    by (simp_all add: js_def)
  from 1 2 3 4 scrape_wraps[of E options st this w0 p r w e w1] show ?thesis by blast
qed

theorem price_step_failures_witness:
  "scrape (fakeEngine shop False) (priceRequest (js ''http://c.example'')) noOptions (liveScraper, world0) =
     (Inl (ScrapeFailed (js ''http://c.example'') (message (ElementNotFound (js ''.price'')))),
      (liveScraper, world0\<lparr>current := js ''http://c.example'', clock := 1000\<rparr>))
   \<and> scrape (fakeEngine shop False) (priceRequest (js ''http://d.example'')) noOptions (liveScraper, world0) =
     (Inl (ScrapeFailed (js ''http://d.example'') (message (CouldNotParse (js ''   '')))),
      (liveScraper, world0\<lparr>current := js ''http://d.example'', clock := 1000\<rparr>))"
proof -
  let ?E = "fakeEngine shop False"
  let ?wc = "world0\<lparr>current := js ''http://c.example'', clock := 1000\<rparr>"
  let ?wd = "world0\<lparr>current := js ''http://d.example'', clock := 1000\<rparr>"
  have i: "initialize ?E noOptions (liveScraper, world0) = (Inr (), (liveScraper, world0))"
    by (simp add: initialize_def liveScraper_def)
  have p: "page liveScraper = Some 3" by (simp add: liveScraper_def)
  have lc: "loadPage ?E 3 (url (priceRequest (js ''http://c.example''))) noOptions world0 = (Inr (), ?wc)"
    by code_simp
  have ld: "loadPage ?E 3 (url (priceRequest (js ''http://d.example''))) noOptions world0 = (Inr (), ?wd)"
    by code_simp
  have qc: "page_query ?E 3 (js ''.price'') ?wc = (Inr None, ?wc)" by code_simp
  have qd: "page_query ?E 3 (js ''.price'') ?wd = (Inr (Some (textElement (js ''   ''))), ?wd)"
    by code_simp
  have td: "textContent (textElement (js ''   '')) = Some (js ''   '') \<and> js ''   '' \<noteq> []
            \<and> list_all isWhiteSpace (js ''   '')" by code_simp
  have sc: "priceSelector (priceRequest u) = js ''.price''" "url (priceRequest u) = u" for u
    by (simp_all add: priceRequest_def)
  have ec: "extractPrice ?E 3 (priceSelector (priceRequest (js ''http://c.example''))) ?wc =
            (Inl (ElementNotFound (js ''.price'')), ?wc)"
    using price_step_failures[of ?E 3 "js ''.price''" ?wc ?wc] qc unfolding sc by blast
  have ed: "extractPrice ?E 3 (priceSelector (priceRequest (js ''http://d.example''))) ?wd =
            (Inl (CouldNotParse (js ''   '')), ?wd)"
    using price_step_failures[of ?E 3 "js ''.price''" ?wd ?wd "textElement (js ''   '')" "js ''   ''"] qd td
    unfolding sc by blast
  have "scrape ?E (priceRequest (js ''http://c.example'')) noOptions (liveScraper, world0) =
     (Inl (ScrapeFailed (js ''http://c.example'') (message (ElementNotFound (js ''.price'')))), (liveScraper, ?wc))"
    using price_step_failures[of ?E 3 _ ?wc ?wc _ _ noOptions "(liveScraper, world0)" liveScraper world0
            "priceRequest (js ''http://c.example'')" "ElementNotFound (js ''.price'')"] i p lc ec
    unfolding sc by blast
  moreover have "scrape ?E (priceRequest (js ''http://d.example'')) noOptions (liveScraper, world0) =
     (Inl (ScrapeFailed (js ''http://d.example'') (message (CouldNotParse (js ''   '')))), (liveScraper, ?wd))"
    using price_step_failures[of ?E 3 _ ?wd ?wd _ _ noOptions "(liveScraper, world0)" liveScraper world0
            "priceRequest (js ''http://d.example'')" "CouldNotParse (js ''   '')"] i p ld ed
    unfolding sc by blast
  ultimately show ?thesis by blast
qed

text \<open>
  Claim C4 as stated fails: for a price element whose text is three spaces the step fails
  with the parse error, not with \<open>EmptyContent\<close>.
\<close>

theorem blank_price_text_counterexample:
  "extractPrice (fakeEngine shop False) 3 (js ''.price'') (world0\<lparr>current := js ''http://d.example''\<rparr>) =
     (Inl (CouldNotParse (js ''   '')), world0\<lparr>current := js ''http://d.example''\<rparr>)
   \<and> CouldNotParse (js ''   '') \<noteq> EmptyContent
   \<and> message (CouldNotParse (js ''   '')) \<noteq> message EmptyContent"
  by code_simp

subsection \<open>The image step\<close>

lemma split_nonempty: "split sep s \<noteq> []"
  by (induction s) (auto split: list.splits)

text \<open>
  Claim C3. The image step of \<open>scrape\<close> yields \<open>src\<close> for an element that has both \<open>src\<close>
  and \<open>data-src\<close>, but for an element that carries only \<open>srcset="a.jpg 1x, b.jpg 2x"\<close> it
  yields no image URL, where the helper \<open>extractImageUrl\<close> yields \<open>a.jpg\<close>.
\<close>

theorem scrape_image_ignores_srcset:
  "extractImage (fakeEngine shop False) 3 (Some (js ''img'')) (world0\<lparr>current := js ''http://b.example''\<rparr>) =
     (Inr None, world0\<lparr>current := js ''http://b.example''\<rparr>)
   \<and> extractImageUrl (Some (imageElement [(js ''srcset'', js ''a.jpg 1x, b.jpg 2x'')])) = Some (js ''a.jpg'')
   \<and> extractImage
         (fakeEngine [(js ''http://e.example'',
            [(js ''img'', imageElement [(js ''data-src'', js ''lazy.jpg''), (js ''src'', js ''main.jpg'')])])] False)
         3 (Some (js ''img'')) (world0\<lparr>current := js ''http://e.example''\<rparr>) =
       (Inr (Some (js ''main.jpg'')), world0\<lparr>current := js ''http://e.example''\<rparr>)
   \<and> fst (scrape (fakeEngine shop False) (priceRequest (js ''http://b.example'')) noOptions (liveScraper, world0)) =
       Inr \<lparr>price = toDouble False (1999 / 100), currency = js ''USD'', productName = None, imageUrl = None,
            rawPrice = js ''$19.99''\<rparr>"
  by code_simp

subsection \<open>Batches\<close>

lemma batchLoop_acc:
  "batchLoop E options m rs acc st =
     (acc @ fst (batchLoop E options m rs [] st), snd (batchLoop E options m rs [] st))"
proof (induction rs arbitrary: acc st)
  case Nil
  then show ?case by simp
next
  case (Cons r rs)
  obtain res st1 where s: "scrapeWithRetry E r options m st = (res, st1)" by (cases "scrapeWithRetry E r options m st")
  show ?case
    using Cons.IH[of "acc @ [outcome r res]" st1] Cons.IH[of "[outcome r res]" st1] s by simp
qed

lemma batchLoop_state: "snd (batchLoop E options m rs [] st) = batchState E options m rs st"
proof (induction rs arbitrary: st)
  case Nil
  then show ?case by simp
next
  case (Cons r rs)
  obtain res st1 where s: "scrapeWithRetry E r options m st = (res, st1)" by (cases "scrapeWithRetry E r options m st")
  show ?case using Cons.IH[of st1] batchLoop_acc[of E options m rs "[outcome r res]" st1] s by simp
qed

lemma batchLoop_results:
  "fst (batchLoop E options m rs [] st) =
     map (\<lambda>i. outcome (rs ! i) (fst (scrapeWithRetry E (rs ! i) options m (batchState E options m (take i rs) st))))
       [0..<length rs]"
proof (induction rs arbitrary: st)
  case Nil
  then show ?case by simp
next
  case (Cons r rs)
  obtain res st1 where s: "scrapeWithRetry E r options m st = (res, st1)" by (cases "scrapeWithRetry E r options m st")
  have "fst (batchLoop E options m (r # rs) [] st) = outcome r res # fst (batchLoop E options m rs [] st1)"
    using batchLoop_acc[of E options m rs "[outcome r res]" st1] s by simp
  also have "\<dots> = outcome r res #
      map (\<lambda>i. outcome (rs ! i) (fst (scrapeWithRetry E (rs ! i) options m (batchState E options m (take i rs) st1))))
        [0..<length rs]"
    by (simp add: Cons.IH)
  also have "\<dots> = map (\<lambda>i. outcome ((r # rs) ! i)
                 (fst (scrapeWithRetry E ((r # rs) ! i) options m (batchState E options m (take i (r # rs)) st))))
        [0..<length (r # rs)]"
    using s by (simp add: upt_conv_Cons map_Suc_upt[symmetric] del: upt_Suc)
  finally show ?case .
qed

text \<open>
  Claim C6. \<open>scrapeBatch\<close> returns one outcome for each request, in the order of the
  requests and with each request's URL: outcome \<open>i\<close> is a success carrying the data when
  the retried scrape of request \<open>i\<close>, run in the state the earlier requests left, succeeds,
  and a failure carrying the error's message when it fails. A failure does not end the
  loop: the batch goes on in the state that scrape left.
\<close>

theorem scrapeBatch_outcomes:
  "length (fst (scrapeBatch E requests options maxRetries st)) = length requests
   \<and> map itemUrl (fst (scrapeBatch E requests options maxRetries st)) = map url requests
   \<and> (\<forall>i < length requests.
        fst (scrapeBatch E requests options maxRetries st) ! i =
          (case fst (scrapeWithRetry E (requests ! i) options maxRetries
                      (batchState E options maxRetries (take i requests) st)) of
             Inr d \<Rightarrow> \<lparr>success = True, data = Some d, error = None, itemUrl = url (requests ! i)\<rparr>
           | Inl e \<Rightarrow> \<lparr>success = False, data = None, error = Some (errorText e),
                        itemUrl = url (requests ! i)\<rparr>))
   \<and> snd (scrapeBatch E requests options maxRetries st) = batchState E options maxRetries requests st"
proof -
  have r: "fst (scrapeBatch E requests options maxRetries st) =
     map (\<lambda>i. outcome (requests ! i) (fst (scrapeWithRetry E (requests ! i) options maxRetries
                  (batchState E options maxRetries (take i requests) st))))
       [0..<length requests]"
    by (simp add: scrapeBatch_def batchLoop_results)
  have u: "itemUrl (outcome q res) = url q" for q res
    by (simp add: outcome_def split: sum.splits)
  have "map itemUrl (fst (scrapeBatch E requests options maxRetries st)) = map url requests"
  proof -
    have "map url requests = map url (map (\<lambda>i. requests ! i) [0..<length requests])"
      by (simp only: map_nth)
    then show ?thesis unfolding r by (simp add: u comp_def)
  qed
  moreover have "\<forall>i < length requests.
        fst (scrapeBatch E requests options maxRetries st) ! i =
          (case fst (scrapeWithRetry E (requests ! i) options maxRetries
                      (batchState E options maxRetries (take i requests) st)) of
             Inr d \<Rightarrow> \<lparr>success = True, data = Some d, error = None, itemUrl = url (requests ! i)\<rparr>
           | Inl e \<Rightarrow> \<lparr>success = False, data = None, error = Some (errorText e),
                        itemUrl = url (requests ! i)\<rparr>)"
    unfolding r by (auto simp: outcome_def split: sum.splits)
  moreover have "length (fst (scrapeBatch E requests options maxRetries st)) = length requests"
    unfolding r by simp
  moreover have "snd (scrapeBatch E requests options maxRetries st) = batchState E options maxRetries requests st"
    by (simp add: scrapeBatch_def batchLoop_state)
  ultimately show ?thesis by blast
qed

theorem scrapeBatch_outcomes_witness:
  "fst (scrapeBatch (fakeEngine shop False)
          [priceRequest (js ''http://a.example''), priceRequest (js ''http://b.example''),
           priceRequest (js ''http://c.example'')] noOptions 3 (newScraper, world0)) =
     [\<lparr>success = False, data = None,
        error = Some (js ''Failed to scrape http://a.example: net::ERR_NAME_NOT_RESOLVED''),
        itemUrl = js ''http://a.example''\<rparr>,
      \<lparr>success = True,
        data = Some \<lparr>price = toDouble False (1999 / 100), currency = js ''USD'', productName = None,
                     imageUrl = None, rawPrice = js ''$19.99''\<rparr>,
        error = None, itemUrl = js ''http://b.example''\<rparr>,
      \<lparr>success = False, data = None,
        error = Some (js ''Failed to scrape http://c.example: Price element not found with selector: .price''),
        itemUrl = js ''http://c.example''\<rparr>]"
proof -
  let ?rs = "[priceRequest (js ''http://a.example''), priceRequest (js ''http://b.example''),
           priceRequest (js ''http://c.example'')]"
  let ?E = "fakeEngine shop False"
  let ?out = "fst (scrapeBatch ?E ?rs noOptions 3 (newScraper, world0))"
  have s0: "fst (scrapeWithRetry ?E (?rs ! 0) noOptions 3 (batchState ?E noOptions 3 (take 0 ?rs) (newScraper, world0))) =
      Inl (Some (ScrapeFailed (js ''http://a.example'') (js ''net::ERR_NAME_NOT_RESOLVED'')))"
    by code_simp
  have s1: "fst (scrapeWithRetry ?E (?rs ! 1) noOptions 3 (batchState ?E noOptions 3 (take 1 ?rs) (newScraper, world0))) =
      Inr \<lparr>price = toDouble False (1999 / 100), currency = js ''USD'', productName = None,
                     imageUrl = None, rawPrice = js ''$19.99''\<rparr>"
    by code_simp
  have s2: "fst (scrapeWithRetry ?E (?rs ! 2) noOptions 3 (batchState ?E noOptions 3 (take 2 ?rs) (newScraper, world0))) =
      Inl (Some (ScrapeFailed (js ''http://c.example'') (js ''Price element not found with selector: .price'')))"
    by code_simp
  have m0: "errorText (Some (ScrapeFailed (js ''http://a.example'') (js ''net::ERR_NAME_NOT_RESOLVED''))) =
     js ''Failed to scrape http://a.example: net::ERR_NAME_NOT_RESOLVED''" by code_simp
  have m2: "errorText (Some (ScrapeFailed (js ''http://c.example'') (js ''Price element not found with selector: .price''))) =
     js ''Failed to scrape http://c.example: Price element not found with selector: .price''" by code_simp
  have u: "url (?rs ! 0) = js ''http://a.example''" "url (?rs ! 1) = js ''http://b.example''"
    "url (?rs ! 2) = js ''http://c.example''" by (simp_all add: priceRequest_def)
  note t = scrapeBatch_outcomes[of ?E ?rs noOptions 3 "(newScraper, world0)"]
  from t have len: "length ?out = 3" by simp
  from t have nth: "\<forall>i<3. ?out ! i =
          (case fst (scrapeWithRetry ?E (?rs ! i) noOptions 3 (batchState ?E noOptions 3 (take i ?rs) (newScraper, world0))) of
             Inr d \<Rightarrow> \<lparr>success = True, data = Some d, error = None, itemUrl = url (?rs ! i)\<rparr>
           | Inl e \<Rightarrow> \<lparr>success = False, data = None, error = Some (errorText e), itemUrl = url (?rs ! i)\<rparr>)"
    by simp
  have three: "i < 3 \<longleftrightarrow> i = 0 \<or> i = 1 \<or> i = 2" for i :: nat by auto
  from nth have n0: "?out ! 0 = \<lparr>success = False, data = None,
        error = Some (js ''Failed to scrape http://a.example: net::ERR_NAME_NOT_RESOLVED''),
        itemUrl = js ''http://a.example''\<rparr>"
    unfolding three by (simp only: s0 m0 u sum.case simp_thms)
  from nth have n1: "?out ! 1 = \<lparr>success = True,
        data = Some \<lparr>price = toDouble False (1999 / 100), currency = js ''USD'', productName = None,
                     imageUrl = None, rawPrice = js ''$19.99''\<rparr>,
        error = None, itemUrl = js ''http://b.example''\<rparr>"
    unfolding three by (simp only: s1 u sum.case simp_thms)
  from nth have n2: "?out ! 2 = \<lparr>success = False, data = None,
        error = Some (js ''Failed to scrape http://c.example: Price element not found with selector: .price''),
        itemUrl = js ''http://c.example''\<rparr>"
    unfolding three by (simp only: s2 m2 u sum.case simp_thms)
  show ?thesis
  proof (rule nth_equalityI)
    show "length ?out = length [\<lparr>success = False, data = None,
        error = Some (js ''Failed to scrape http://a.example: net::ERR_NAME_NOT_RESOLVED''),
        itemUrl = js ''http://a.example''\<rparr>,
      \<lparr>success = True,
        data = Some \<lparr>price = toDouble False (1999 / 100), currency = js ''USD'', productName = None,
                     imageUrl = None, rawPrice = js ''$19.99''\<rparr>,
        error = None, itemUrl = js ''http://b.example''\<rparr>,
      \<lparr>success = False, data = None,
        error = Some (js ''Failed to scrape http://c.example: Price element not found with selector: .price''),
        itemUrl = js ''http://c.example''\<rparr>]"
      using len by simp
  next
    fix i assume "i < length ?out"
    with len have "i = 0 \<or> i = 1 \<or> i = 2" by auto
    then show "?out ! i = [\<lparr>success = False, data = None,
        error = Some (js ''Failed to scrape http://a.example: net::ERR_NAME_NOT_RESOLVED''),
        itemUrl = js ''http://a.example''\<rparr>,
      \<lparr>success = True,
        data = Some \<lparr>price = toDouble False (1999 / 100), currency = js ''USD'', productName = None,
                     imageUrl = None, rawPrice = js ''$19.99''\<rparr>,
        error = None, itemUrl = js ''http://b.example''\<rparr>,
      \<lparr>success = False, data = None,
        error = Some (js ''Failed to scrape http://c.example: Price element not found with selector: .price''),
        itemUrl = js ''http://c.example''\<rparr>] ! i"
      using n0 n1 n2 by auto
  qed
qed

end
